theory Spec2Isabelle
  imports Main
begin

section \<open>Strings\<close>

text \<open>
  A JavaScript string is a sequence of UTF-16 code units. The model uses \<^typ>\<open>string\<close>,
  whose characters are read as the code units U+0000 to U+00FF, and gives
  \<open>String.prototype.trim\<close> and \<open>String.prototype.toLowerCase\<close> on that range: the
  white space and line terminators below U+0100 are TAB, LF, VT, FF, CR, SPACE and
  NO-BREAK SPACE, and the letters with a lower-case partner are A to Z and
  U+00C0 to U+00DE without the multiplication sign U+00D7.
\<close>

definition is_white_space :: "char \<Rightarrow> bool" where
  "is_white_space c = (of_char c \<in> {9, 10, 11, 12, 13, 32, 160 :: nat})"

definition is_upper_case :: "char \<Rightarrow> bool" where
  "is_upper_case c =
     (let n = of_char c :: nat
      in (65 \<le> n \<and> n \<le> 90) \<or> (192 \<le> n \<and> n \<le> 222 \<and> n \<noteq> 215))"

definition toLowerCase_char :: "char \<Rightarrow> char" where
  "toLowerCase_char c = (if is_upper_case c then char_of (of_char c + 32 :: nat) else c)"

definition toLowerCase :: "string \<Rightarrow> string" where
  "toLowerCase s = map toLowerCase_char s"

definition trim :: "string \<Rightarrow> string" where
  "trim s = rev (dropWhile is_white_space (rev (dropWhile is_white_space s)))"

text \<open>
  \<open>x || d\<close> on a value that is a string, \<open>null\<close> or \<open>undefined\<close>: the empty string,
  \<open>null\<close> and \<open>undefined\<close> are falsy. \<open>None\<close> stands for \<open>null\<close> and \<open>undefined\<close>.
\<close>

fun or_else :: "string option \<Rightarrow> string \<Rightarrow> string" where
  "or_else None d = d"
| "or_else (Some s) d = (if s = [] then d else s)"

text \<open>The truth value of an optional string: \<open>null\<close>, \<open>undefined\<close> and the empty string are falsy.\<close>

fun truthy :: "string option \<Rightarrow> bool" where
  "truthy None = False"
| "truthy (Some s) = (s \<noteq> [])"

section \<open>Plain objects used as dictionaries\<close>

text \<open>
  \<open>groupLocal\<close> keeps its table in objects created by \<open>{}\<close>. Such an object has its
  own properties, kept here in creation order, and inherits the properties of
  \<open>Object.prototype\<close>. A read \<open>o[k]\<close> finds an own property first, then an inherited
  one, and is \<open>undefined\<close> otherwise.
\<close>

type_synonym 'v object = "(string \<times> 'v) list"

definition Object_prototype_names :: "string list" where
  "Object_prototype_names =
     [''constructor'', ''__defineGetter__'', ''__defineSetter__'', ''hasOwnProperty'',
      ''__lookupGetter__'', ''__lookupSetter__'', ''isPrototypeOf'',
      ''propertyIsEnumerable'', ''toString'', ''valueOf'', ''__proto__'',
      ''toLocaleString'']"

datatype 'v property = Own 'v | Inherited | Undefined

definition read_property :: "'v object \<Rightarrow> string \<Rightarrow> 'v property" where
  "read_property obj k =
     (case map_of obj k of
        Some v \<Rightarrow> Own v
      | None \<Rightarrow> if k \<in> set Object_prototype_names then Inherited else Undefined)"

text \<open>
  \<open>o[k] = v\<close> on a name that is an own property or is found nowhere: the own property
  is overwritten in place, a new one is added last.
\<close>

fun write_property :: "'v object \<Rightarrow> string \<Rightarrow> 'v \<Rightarrow> 'v object" where
  "write_property [] k v = [(k, v)]"
| "write_property ((k', v') # ps) k v =
     (if k' = k then (k, v) # ps else (k', v') # write_property ps k v)"

text \<open>
  \<open>Object.entries\<close> lists the own properties: first the names that are array indices
  (canonical decimal numerals up to \<open>2^32 - 2\<close>) in ascending numeric order, then the
  other names in creation order. \<open>Object.values\<close> lists the values in the same order.
\<close>

definition is_digit :: "char \<Rightarrow> bool" where
  "is_digit c = (48 \<le> (of_char c :: nat) \<and> (of_char c :: nat) \<le> 57)"

definition decimal_value :: "string \<Rightarrow> nat" where
  "decimal_value s = foldl (\<lambda>n c. 10 * n + (of_char c - 48)) 0 s"

definition is_array_index :: "string \<Rightarrow> bool" where
  "is_array_index s =
     (case s of
        [] \<Rightarrow> False
      | c # cs \<Rightarrow> list_all is_digit s \<and> (if c = CHR ''0'' then cs = [] else True)
                 \<and> decimal_value s < 4294967295)"

definition Object_entries :: "'v object \<Rightarrow> (string \<times> 'v) list" where
  "Object_entries obj =
     sort_key (\<lambda>p. decimal_value (fst p)) (filter (\<lambda>p. is_array_index (fst p)) obj)
     @ filter (\<lambda>p. \<not> is_array_index (fst p)) obj"

definition Object_values :: "'v object \<Rightarrow> 'v list" where
  "Object_values obj = map snd (Object_entries obj)"

section \<open>The report aggregator\<close>

record report =
  report_id :: string
  type :: "string option"
  location :: "string option"
  createdAt :: "nat option"

type_synonym counts = "nat object"
type_synonym Aggregated = "counts object"

text \<open>
  The keys \<open>groupLocal\<close> computes for a report, lines 39 and 40 of the component.
\<close>

definition city_of :: "report \<Rightarrow> string" where
  "city_of r = toLowerCase (trim (or_else (location r) ''Unknown''))"

definition disease_of :: "report \<Rightarrow> string" where
  "disease_of r = toLowerCase (trim (or_else (type r) ''Unknown''))"

text \<open>
  One round of the loop of \<open>groupLocal\<close>. \<open>if (!agg[city]) agg[city] = {}\<close> creates the
  inner object only when the read is \<open>undefined\<close>; \<open>(agg[city][disease] || 0) + 1\<close> is
  the successor of an own count and \<open>1\<close> when the read is \<open>undefined\<close>.

  When one of the two reads finds a property inherited from \<open>Object.prototype\<close>, the
  value read is a built-in object, which is truthy: no inner object is created, or no
  number is computed, and the round does not add the report to the table. The program
  does not raise there; it goes on reading and writing built-in objects. The model
  stops the run at that round and returns the name that was found inherited.
\<close>

datatype fault = Inherited_Property string

definition count_report :: "Aggregated \<Rightarrow> report \<Rightarrow> fault + Aggregated" where
  "count_report agg r =
     (let city = city_of r;
          disease = disease_of r
      in case read_property agg city of
           Inherited \<Rightarrow> Inl (Inherited_Property city)
         | Undefined \<Rightarrow>
             (case read_property [] disease of
                Inherited \<Rightarrow> Inl (Inherited_Property disease)
              | Undefined \<Rightarrow> Inr (write_property agg city [(disease, 1)])
              | Own n \<Rightarrow> Inr (write_property agg city [(disease, n + 1)]))
         | Own dis \<Rightarrow>
             (case read_property dis disease of
                Inherited \<Rightarrow> Inl (Inherited_Property disease)
              | Undefined \<Rightarrow> Inr (write_property agg city (write_property dis disease 1))
              | Own n \<Rightarrow> Inr (write_property agg city (write_property dis disease (n + 1)))))"

fun group_loop :: "Aggregated \<Rightarrow> report list \<Rightarrow> fault + Aggregated" where
  "group_loop agg [] = Inr agg"
| "group_loop agg (r # rs) =
     (case count_report agg r of
        Inl f \<Rightarrow> Inl f
      | Inr agg' \<Rightarrow> group_loop agg' rs)"

definition groupLocal :: "report list \<Rightarrow> fault + Aggregated" where
  "groupLocal reports = group_loop [] reports"

text \<open>
  The sorted projection \<open>localEntries\<close>. \<open>Array.prototype.sort\<close> is stable, and the
  comparators \<open>b[1] - a[1]\<close> and \<open>b.total - a.total\<close> order by count and by total,
  larger first.
\<close>

record entry =
  city :: string
  diseases :: "(string \<times> nat) list"
  total :: nat

definition sort_descending :: "('a \<Rightarrow> nat) \<Rightarrow> 'a list \<Rightarrow> 'a list" where
  "sort_descending f xs = sort_key (\<lambda>x. - int (f x)) xs"

definition entry_of :: "string \<times> counts \<Rightarrow> entry" where
  "entry_of p =
     \<lparr>city = fst p,
      diseases = sort_descending snd (Object_entries (snd p)),
      total = foldl (\<lambda>s n. s + n) 0 (Object_values (snd p))\<rparr>"

definition localEntries :: "Aggregated \<Rightarrow> entry list" where
  "localEntries aggregatedLocal =
     sort_descending total (map entry_of (Object_entries aggregatedLocal))"

section \<open>The global outbreak fetch\<close>

text \<open>
  \<open>textResponse.match(/\{[\s\S]*\}/)\<close>: the leftmost match starts at the first opening
  brace, and the greedy star takes it to the last closing brace after it. There is no
  match when no closing brace follows the first opening brace.
\<close>

definition match_braces :: "string \<Rightarrow> string option" where
  "match_braces s =
     (let from_open = dropWhile (\<lambda>c. c \<noteq> CHR ''{'') s;
          block = rev (dropWhile (\<lambda>c. c \<noteq> CHR ''}'') (rev from_open))
      in if block = [] then None else Some block)"

text \<open>
  \<open>JSON.parse\<close> is the engine's; the model takes it as \<open>parse\<close>, with \<open>None\<close> for a
  \<open>SyntaxError\<close>, and takes as \<open>is_object\<close> the test
  \<open>typeof v === "object" && v !== null\<close> on what it returns.

  Lines 95 to 119: the first attempt takes the whole text and wants an object, the
  second takes the matched block. The result is the table handed to
  \<open>setGlobalReports\<close> or the message of the error thrown.
\<close>

definition first_attempt :: "(string \<Rightarrow> 'j option) \<Rightarrow> ('j \<Rightarrow> bool) \<Rightarrow> string \<Rightarrow> 'j option" where
  "first_attempt parse is_object t =
     (case parse t of
        None \<Rightarrow> None
      | Some v \<Rightarrow> if is_object v then Some v else None)"

definition second_attempt :: "(string \<Rightarrow> 'j option) \<Rightarrow> string \<Rightarrow> string + 'j" where
  "second_attempt parse t =
     (case match_braces t of
        None \<Rightarrow> Inl ''Gemini API did not return JSON.''
      | Some block \<Rightarrow>
          (case parse block of
             None \<Rightarrow> Inl ''Unable to parse Gemini API response as JSON.''
           | Some v \<Rightarrow> Inr v))"

definition parse_response ::
  "(string \<Rightarrow> 'j option) \<Rightarrow> ('j \<Rightarrow> bool) \<Rightarrow> string option \<Rightarrow> string + 'j" where
  "parse_response parse is_object textResponse =
     (case textResponse of
        None \<Rightarrow> Inl ''Unexpected response format from Gemini API.''
      | Some t \<Rightarrow>
          if t = [] then Inl ''Unexpected response format from Gemini API.''
          else (case first_attempt parse is_object t of
                  Some v \<Rightarrow> Inr v
                | None \<Rightarrow> second_attempt parse t))"

text \<open>\<open>String(n)\<close> for a natural number, as a template literal renders it.\<close>

fun decimal :: "nat \<Rightarrow> string" where
  "decimal n =
     (if n < 10 then [''0123456789'' ! n]
      else decimal (n div 10) @ [''0123456789'' ! (n mod 10)])"

text \<open>
  What the network gives back to one call: \<open>fetch\<close> rejects, or the status is not ok,
  or the body cannot be read as JSON, or the body is read and \<open>textResponse\<close> is the
  text found in it (\<open>None\<close> for \<open>undefined\<close>). A rejection carries the message of its
  \<open>Error\<close>, or \<open>None\<close> when the reason is not an \<open>Error\<close>.
\<close>

datatype response =
  Fetch_rejected "string option"
| Http_status nat
| Body_rejected "string option"
| Body "string option"

fun error_message :: "string option \<Rightarrow> string" where
  "error_message None = ''Unknown error''"
| "error_message (Some m) = m"

record 'j fetch_env =
  API_KEY :: "string option"
  API_URL :: "string option"
  JSON_parse :: "string \<Rightarrow> 'j option"
  is_object :: "'j \<Rightarrow> bool"
  response :: response

text \<open>
  The body of the \<open>try\<close> block: the table to store, or the message the \<open>catch\<close> block
  reads off the error.
\<close>

definition attempt_fetch :: "'j fetch_env \<Rightarrow> string + 'j" where
  "attempt_fetch e =
     (case response e of
        Fetch_rejected m \<Rightarrow> Inl (error_message m)
      | Http_status n \<Rightarrow> Inl (''HTTP error! status: '' @ decimal n)
      | Body_rejected m \<Rightarrow> Inl (error_message m)
      | Body textResponse \<Rightarrow> parse_response (JSON_parse e) (is_object e) textResponse)"

text \<open>
  The state cells of \<open>OutbreakBox\<close> that the fetch touches, and the timeouts that are
  pending: each with its delay in milliseconds and with the \<open>retryCount\<close> that the
  callback handed to \<open>setTimeout\<close> reads.
\<close>

record 'j outbreak_box =
  globalReports :: 'j
  isLoading :: bool
  error :: "string option"
  retryCount :: nat
  timeouts :: "(nat \<times> nat) list"

definition maxRetries :: nat where
  "maxRetries = 3"

text \<open>
  \<open>fetchGlobalOutbreaks\<close>. Inside the callback \<open>retryCount\<close> is a constant of the
  render that created the callback (\<open>useCallback\<close> with the dependency \<open>retryCount\<close>):
  that value is the argument \<open>seen\<close>. \<open>setRetryCount((prev) => prev + 1)\<close> works on
  the cell. \<open>setTimeout(fetchGlobalOutbreaks, ...)\<close> hands over the callback itself, so
  the pending timeout reads the same \<open>seen\<close>.
\<close>

definition fetchGlobalOutbreaks :: "'j fetch_env \<Rightarrow> nat \<Rightarrow> 'j outbreak_box \<Rightarrow> 'j outbreak_box" where
  "fetchGlobalOutbreaks e seen s =
     (if \<not> truthy (API_KEY e) \<or> \<not> truthy (API_URL e)
      then s\<lparr>error := Some ''API key or URL is missing. Please check your environment configuration.''\<rparr>
      else
        let s1 = s\<lparr>isLoading := True, error := None\<rparr>;
            s2 = (case attempt_fetch e of
                    Inr parsed \<Rightarrow> s1\<lparr>globalReports := parsed, retryCount := 0\<rparr>
                  | Inl errorMessage \<Rightarrow>
                      if seen < maxRetries
                      then s1\<lparr>retryCount := retryCount s1 + 1,
                              error := Some (''Retrying... Failed to fetch global outbreaks: ''
                                             @ errorMessage),
                              timeouts := timeouts s1 @ [(2000 * (seen + 1), seen)]\<rparr>
                      else s1\<lparr>error := Some (''Failed to fetch global outbreaks after ''
                                             @ decimal maxRetries @ '' retries: ''
                                             @ errorMessage)\<rparr>)
        in s2\<lparr>isLoading := False\<rparr>)"

text \<open>A pending timeout comes due: the callback it holds is run.\<close>

definition fire_timeout :: "'j fetch_env \<Rightarrow> 'j outbreak_box \<Rightarrow> 'j outbreak_box" where
  "fire_timeout e s =
     (case timeouts s of
        [] \<Rightarrow> s
      | (delay, seen) # pending \<Rightarrow> fetchGlobalOutbreaks e seen (s\<lparr>timeouts := pending\<rparr>))"

section \<open>The prescription thread and its payment gate\<close>

datatype role = Doctor | Patient

datatype sender = doctor | patient | gemini

datatype message_type = chat | prescription | buyLink

record Message =
  message_id :: string
  sender :: sender
  message_type :: message_type
  message_text :: string
  timestamp :: nat

record PaymentStatus =
  claimed :: bool
  verified :: bool

text \<open>
  The part of the database under \<open>prescriptions/{targetId}\<close>: the messages keyed by
  their id, and the payment status, which is absent until it is first written.
\<close>

record thread =
  thread_messages :: "Message object"
  payment_status :: "PaymentStatus option"

type_synonym database = "string \<Rightarrow> thread"

text \<open>
  The three states the specification names. A stored status with \<open>verified\<close> and
  without \<open>claimed\<close> is none of them.
\<close>

definition Unclaimed :: PaymentStatus where
  "Unclaimed = \<lparr>claimed = False, verified = False\<rparr>"

definition Claimed :: PaymentStatus where
  "Claimed = \<lparr>claimed = True, verified = False\<rparr>"

definition Verified :: PaymentStatus where
  "Verified = \<lparr>claimed = True, verified = True\<rparr>"

text \<open>
  What a handler finds around it: the props of the component, the signed-in user
  (\<open>auth.currentUser\<close>, by its uid), the values of \<open>generateId()\<close> and \<open>Date.now()\<close>
  in this call, whether the database accepts a write (\<open>set\<close> returns a promise that may
  reject), and the messages \<open>fetchBuyLinks\<close> builds.
\<close>

datatype db_write =
  Message_write string string Message
| Payment_write string PaymentStatus

record env =
  role :: role
  patientId :: "string option"
  user :: "string option"
  generateId :: string
  now :: nat
  accepts :: "db_write \<Rightarrow> bool"
  buy_links :: "Message option"
  links_error :: Message

text \<open>The state of one mounted \<open>PrescriptionBox\<close> (its \<open>useState\<close> cells).\<close>

record component =
  messages :: "Message list"
  problemDiagnosis :: string
  medicineNames :: string
  dosageInstructions :: string
  date :: string
  hasDoctorSentFirst :: bool
  paymentClaimed :: bool
  paymentVerified :: bool
  showVerificationPopup :: bool

record world =
  db :: database
  comp :: component

text \<open>
  A handler either runs to its end or is cut short by a rejected write; both leave a
  state behind.
\<close>

datatype 'a result = Completed 'a | Rejected 'a

fun state_of :: "'a result \<Rightarrow> 'a" where
  "state_of (Completed s) = s"
| "state_of (Rejected s) = s"

definition set_payment :: "env \<Rightarrow> string \<Rightarrow> PaymentStatus \<Rightarrow> database \<Rightarrow> database option" where
  "set_payment e targetId p d =
     (if accepts e (Payment_write targetId p)
      then Some (d(targetId := (d targetId)\<lparr>payment_status := Some p\<rparr>))
      else None)"

definition set_message :: "env \<Rightarrow> string \<Rightarrow> Message \<Rightarrow> database \<Rightarrow> database option" where
  "set_message e targetId m d =
     (if accepts e (Message_write targetId (message_id m) m)
      then Some (d(targetId := (d targetId)
                   \<lparr>thread_messages := write_property (thread_messages (d targetId)) (message_id m) m\<rparr>))
      else None)"

subsection \<open>The listeners and the popup effect\<close>

text \<open>
  The message listener (lines 47 to 53): the values of the snapshot sorted by
  timestamp; \<open>hasDoctorSentFirst\<close> is set as soon as there is any message, and nothing
  ever clears it.
\<close>

definition on_messages :: "Message object \<Rightarrow> component \<Rightarrow> component" where
  "on_messages data c =
     (let msgs = sort_key timestamp (Object_values data);
          c' = c\<lparr>messages := msgs\<rparr>
      in if length msgs > 0 then c'\<lparr>hasDoctorSentFirst := True\<rparr> else c')"

text \<open>The payment listener (lines 63 to 67), with its default for an absent status.\<close>

definition on_payment :: "PaymentStatus option \<Rightarrow> component \<Rightarrow> component" where
  "on_payment snap c =
     (let data = (case snap of None \<Rightarrow> \<lparr>claimed = False, verified = False\<rparr> | Some p \<Rightarrow> p)
      in c\<lparr>paymentClaimed := claimed data, paymentVerified := verified data\<rparr>)"

text \<open>The effect of lines 72 to 78.\<close>

definition popup_effect :: "env \<Rightarrow> component \<Rightarrow> component" where
  "popup_effect e c =
     (if role e = Doctor \<and> paymentClaimed c \<and> \<not> paymentVerified c
      then c\<lparr>showVerificationPopup := True\<rparr>
      else c\<lparr>showVerificationPopup := False\<rparr>)"

text \<open>
  The thread a component listens to (\<open>targetId\<close> of lines 44 and 60), and the component
  once both listeners have delivered the current content of that thread and the
  effect has run. Without a user or a target nothing is subscribed.
\<close>

definition targetId :: "env \<Rightarrow> string option" where
  "targetId e =
     (case user e of
        None \<Rightarrow> None
      | Some uid \<Rightarrow>
          (let t = (if role e = Doctor then patientId e else Some uid)
           in if truthy t then t else None))"

definition observe :: "env \<Rightarrow> database \<Rightarrow> component \<Rightarrow> component" where
  "observe e d c =
     (case targetId e of
        None \<Rightarrow> popup_effect e c
      | Some t \<Rightarrow>
          popup_effect e
            (on_payment (payment_status (d t)) (on_messages (thread_messages (d t)) c)))"

subsection \<open>The handlers\<close>

definition handleConfirmPayment :: "env \<Rightarrow> world \<Rightarrow> world result" where
  "handleConfirmPayment e w =
     (case user e of
        None \<Rightarrow> Completed w
      | Some uid \<Rightarrow>
          (case set_payment e uid \<lparr>claimed = True, verified = False\<rparr> (db w) of
             None \<Rightarrow> Rejected w
           | Some d \<Rightarrow> Completed (w\<lparr>db := d\<rparr>)))"

definition handleVerifyYes :: "env \<Rightarrow> world \<Rightarrow> world result" where
  "handleVerifyYes e w =
     (case (user e, patientId e) of
        (Some uid, Some pid) \<Rightarrow>
          (if pid = [] then Completed w
           else case set_payment e pid \<lparr>claimed = True, verified = True\<rparr> (db w) of
                  None \<Rightarrow> Rejected w
                | Some d \<Rightarrow>
                    Completed (w\<lparr>db := d, comp := (comp w)\<lparr>showVerificationPopup := False\<rparr>\<rparr>))
      | _ \<Rightarrow> Completed w)"

definition handleVerifyNo :: "env \<Rightarrow> world \<Rightarrow> world result" where
  "handleVerifyNo e w =
     (case (user e, patientId e) of
        (Some uid, Some pid) \<Rightarrow>
          (if pid = [] then Completed w
           else case set_payment e pid \<lparr>claimed = False, verified = False\<rparr> (db w) of
                  None \<Rightarrow> Rejected w
                | Some d \<Rightarrow>
                    Completed (w\<lparr>db := d, comp := (comp w)\<lparr>showVerificationPopup := False\<rparr>\<rparr>))
      | _ \<Rightarrow> Completed w)"

text \<open>
  \<open>fetchBuyLinks\<close> catches its own failures and writes no payment status. When the
  key or the URL is missing, or the call or the write fails, it adds an error message
  to the messages of the component and stores nothing; otherwise it stores one message
  under \<open>prescriptions/{targetId}/messages\<close>. Both messages have sender \<open>gemini\<close> and
  type \<open>buyLink\<close>; their ids, times and texts are those the environment holds
  (\<open>buy_links\<close> is \<open>None\<close> when no message is built).
\<close>

definition links_target :: "env \<Rightarrow> string" where
  "links_target e =
     (case (if role e = Doctor then patientId e else user e) of
        None \<Rightarrow> ''undefined''
      | Some t \<Rightarrow> t)"

definition links_failed :: "env \<Rightarrow> world \<Rightarrow> world" where
  "links_failed e w =
     w\<lparr>comp := (comp w)\<lparr>messages := messages (comp w)
                   @ [(links_error e)\<lparr>sender := gemini, message_type := buyLink\<rparr>]\<rparr>\<rparr>"

definition fetchBuyLinks :: "env \<Rightarrow> world \<Rightarrow> world" where
  "fetchBuyLinks e w =
     (case buy_links e of
        None \<Rightarrow> links_failed e w
      | Some m \<Rightarrow>
          (case set_message e (links_target e) (m\<lparr>sender := gemini, message_type := buyLink\<rparr>)
                  (db w) of
             None \<Rightarrow> links_failed e w
           | Some d' \<Rightarrow> w\<lparr>db := d'\<rparr>))"

definition prescription_text :: "component \<Rightarrow> string" where
  "prescription_text c =
     ''Diagnosis: '' @ problemDiagnosis c @ [CHR 0x0A] @ ''Medicines: '' @ medicineNames c
     @ [CHR 0x0A] @ ''Dosage: '' @ dosageInstructions c @ [CHR 0x0A] @ ''Next Visit: '' @ date c"

text \<open>The message of lines 209 to 215.\<close>

definition prescription_of :: "env \<Rightarrow> component \<Rightarrow> Message" where
  "prescription_of e c = \<lparr>message_id = generateId e, sender = doctor,
     message_type = prescription, message_text = prescription_text c, timestamp = now e\<rparr>"

definition handleSendPrescription :: "env \<Rightarrow> world \<Rightarrow> world result" where
  "handleSendPrescription e w =
     (let c = comp w
      in if problemDiagnosis c = [] \<or> medicineNames c = [] \<or> dosageInstructions c = []
            \<or> date c = []
         then Completed w
         else case (user e, patientId e) of
           (Some uid, Some pid) \<Rightarrow>
             (if pid = [] then Completed w
              else
                let msg = prescription_of e c
                in case set_message e pid msg (db w) of
                     None \<Rightarrow> Rejected w
                   | Some d1 \<Rightarrow>
                       (case set_payment e pid \<lparr>claimed = False, verified = False\<rparr> d1 of
                          None \<Rightarrow> Rejected (w\<lparr>db := d1\<rparr>)
                        | Some d2 \<Rightarrow>
                            (let w' = fetchBuyLinks e (w\<lparr>db := d2\<rparr>)
                             in Completed
                                  (w'\<lparr>comp := (comp w')\<lparr>problemDiagnosis := [],
                                         medicineNames := [], dosageInstructions := [],
                                         date := []\<rparr>\<rparr>))))
         | _ \<Rightarrow> Completed w)"

subsection \<open>What is rendered\<close>

text \<open>
  Lines 278 to 303: the class \<open>blur-sm select-none\<close> on the content of a message.
\<close>

definition shouldBlur :: "env \<Rightarrow> component \<Rightarrow> bool" where
  "shouldBlur e c = (role e = Patient \<and> hasDoctorSentFirst c \<and> \<not> paymentVerified c)"

definition blurred :: "env \<Rightarrow> component \<Rightarrow> Message \<Rightarrow> bool" where
  "blurred e c msg =
     (shouldBlur e c \<and> (message_type msg = prescription \<or> message_type msg = buyLink))"

text \<open>
  The controls of the payment gate and when each is on screen: the popup with Yes and
  No (line 343), the patient's Confirm Payment button (lines 422 to 437), and the
  doctor's prescription form (line 365).
\<close>

datatype control = Confirm_Payment | Verify_Yes | Verify_No | Send_Prescription

fun rendered :: "env \<Rightarrow> component \<Rightarrow> control \<Rightarrow> bool" where
  "rendered e c Verify_Yes = showVerificationPopup c"
| "rendered e c Verify_No = showVerificationPopup c"
| "rendered e c Confirm_Payment =
     (role e = Patient \<and> hasDoctorSentFirst c \<and> \<not> paymentVerified c \<and> \<not> paymentClaimed c)"
| "rendered e c Send_Prescription = (role e = Doctor)"

fun handler :: "control \<Rightarrow> env \<Rightarrow> world \<Rightarrow> world result" where
  "handler Confirm_Payment = handleConfirmPayment"
| "handler Verify_Yes = handleVerifyYes"
| "handler Verify_No = handleVerifyNo"
| "handler Send_Prescription = handleSendPrescription"

text \<open>
  A click reaches its handler only when the control is on screen. After the handler
  the listeners deliver the thread as it now is and the effect runs.
\<close>

definition click :: "control \<Rightarrow> env \<Rightarrow> world \<Rightarrow> world" where
  "click b e w =
     (if rendered e (comp w) b
      then let w' = state_of (handler b e w) in w'\<lparr>comp := observe e (db w') (comp w')\<rparr>
      else w)"

subsection \<open>Runs of the gate\<close>

text \<open>
  Runs of the gate: at each step somebody clicks a control in a component that has
  observed the database as it is. The component is otherwise arbitrary, and so is the
  environment, which says who clicks and on which thread.
\<close>

definition step :: "env \<times> control \<times> component \<Rightarrow> database \<Rightarrow> database" where
  "step x d = (case x of (e, b, c) \<Rightarrow> db (click b e \<lparr>db = d, comp = observe e d c\<rparr>))"

fun run :: "(env \<times> control \<times> component) list \<Rightarrow> database \<Rightarrow> database list" where
  "run [] d = [d]"
| "run (x # xs) d = d # run xs (step x d)"

section \<open>The words of the claims\<close>

text \<open>The invariant of the payment status: a verified payment has been claimed.\<close>

definition gate_invariant :: "PaymentStatus \<Rightarrow> bool" where
  "gate_invariant p = (verified p \<longrightarrow> claimed p)"

text \<open>The guard of \<open>handleSendPrescription\<close> on the form (line 205).\<close>

definition form_complete :: "component \<Rightarrow> bool" where
  "form_complete c = (problemDiagnosis c \<noteq> [] \<and> medicineNames c \<noteq> []
                      \<and> dosageInstructions c \<noteq> [] \<and> date c \<noteq> [])"

text \<open>
  The words of claim C6. White space and letter case are given by tables of their own,
  not by the functions the aggregator calls. The white-space characters are tab, line
  feed, vertical tab, form feed, carriage return, space and no-break space. A letter
  pair is a capital letter with its small letter: A to Z, and the accented capitals of
  Latin-1. Two strings differ only in letter case or in leading and trailing white
  space when, once white-space characters are taken off both ends of each, what is
  left has the same length and agrees place by place up to a letter pair.
\<close>

definition white_space_characters :: "char list" where
  "white_space_characters = [CHR 0x09, CHR 0x0A, CHR 0x0B, CHR 0x0C, CHR 0x0D, CHR 0x20, CHR 0xA0]"

definition letter_pairs :: "(char \<times> char) list" where
  "letter_pairs =
     zip (''ABCDEFGHIJKLMNOPQRSTUVWXYZ''
          @ [CHR 0xC0, CHR 0xC1, CHR 0xC2, CHR 0xC3, CHR 0xC4, CHR 0xC5, CHR 0xC6, CHR 0xC7, CHR 0xC8, CHR 0xC9,
          CHR 0xCA, CHR 0xCB, CHR 0xCC, CHR 0xCD, CHR 0xCE, CHR 0xCF, CHR 0xD0, CHR 0xD1, CHR 0xD2, CHR 0xD3,
          CHR 0xD4, CHR 0xD5, CHR 0xD6, CHR 0xD8, CHR 0xD9, CHR 0xDA, CHR 0xDB, CHR 0xDC, CHR 0xDD, CHR 0xDE])
         (''abcdefghijklmnopqrstuvwxyz''
          @ [CHR 0xE0, CHR 0xE1, CHR 0xE2, CHR 0xE3, CHR 0xE4, CHR 0xE5, CHR 0xE6, CHR 0xE7, CHR 0xE8, CHR 0xE9,
          CHR 0xEA, CHR 0xEB, CHR 0xEC, CHR 0xED, CHR 0xEE, CHR 0xEF, CHR 0xF0, CHR 0xF1, CHR 0xF2, CHR 0xF3,
          CHR 0xF4, CHR 0xF5, CHR 0xF6, CHR 0xF8, CHR 0xF9, CHR 0xFA, CHR 0xFB, CHR 0xFC, CHR 0xFD, CHR 0xFE])"

definition same_letter :: "char \<Rightarrow> char \<Rightarrow> bool" where
  "same_letter c d = (c = d \<or> (c, d) \<in> set letter_pairs \<or> (d, c) \<in> set letter_pairs)"

definition differ_only_in_case_or_outer_space :: "string \<Rightarrow> string \<Rightarrow> bool" where
  "differ_only_in_case_or_outer_space a b =
     (\<exists>pa ca sa pb cb sb.
        a = pa @ ca @ sa \<and> b = pb @ cb @ sb
        \<and> list_all (\<lambda>c. c \<in> set white_space_characters) (pa @ sa @ pb @ sb)
        \<and> list_all2 same_letter ca cb)"

text \<open>
  The words of the claims about the table: a name that \<open>Object.prototype\<close> has, the
  count the table holds for a pair of keys (none when the pair is absent), the number
  of reports that match the pair, and the sum of the counts of a city.
\<close>

definition inherited_name :: "string \<Rightarrow> bool" where
  "inherited_name k = (k \<in> set Object_prototype_names)"

definition count_of :: "Aggregated \<Rightarrow> string \<Rightarrow> string \<Rightarrow> nat" where
  "count_of agg c d =
     (case map_of agg c of
        None \<Rightarrow> 0
      | Some dis \<Rightarrow> (case map_of dis d of None \<Rightarrow> 0 | Some n \<Rightarrow> n))"

definition matching :: "report list \<Rightarrow> string \<Rightarrow> string \<Rightarrow> nat" where
  "matching reports c d = length (filter (\<lambda>r. city_of r = c \<and> disease_of r = d) reports)"

definition city_total :: "Aggregated \<Rightarrow> string \<Rightarrow> nat" where
  "city_total agg c = (case map_of agg c of None \<Rightarrow> 0 | Some dis \<Rightarrow> sum_list (map snd dis))"

text \<open>
  The shape of every table the loop builds: names are own properties once, no name is
  one of \<open>Object.prototype\<close>, no inner object is empty and every count is positive.
\<close>

definition well_formed :: "Aggregated \<Rightarrow> bool" where
  "well_formed agg =
     (distinct (map fst agg)
      \<and> list_all (\<lambda>p. \<not> inherited_name (fst p) \<and> snd p \<noteq> [] \<and> distinct (map fst (snd p))
                       \<and> list_all (\<lambda>q. \<not> inherited_name (fst q) \<and> 0 < snd q) (snd p)) agg)"

text \<open>
  The words of claim C8 as it is stated. The first \<open>{...}\<close> block of a text runs from
  its first opening brace to the first closing brace after it. A response is accepted
  when the whole text parses or, failing that, when this block parses; there is an
  error otherwise.
\<close>

definition first_block :: "string \<Rightarrow> string option" where
  "first_block t =
     (case dropWhile (\<lambda>c. c \<noteq> CHR ''{'') t of
        [] \<Rightarrow> None
      | c # rest \<Rightarrow>
          if CHR ''}'' \<in> set rest then Some (c # takeWhile (\<lambda>c. c \<noteq> CHR ''}'') rest @ ''}'')
          else None)"

definition claimed_response :: "(string \<Rightarrow> 'j option) \<Rightarrow> string option \<Rightarrow> 'j option" where
  "claimed_response parse textResponse =
     (case textResponse of
        None \<Rightarrow> None
      | Some t \<Rightarrow>
          if t = [] then None
          else (case parse t of
                  Some v \<Rightarrow> Some v
                | None \<Rightarrow> (case first_block t of None \<Rightarrow> None | Some block \<Rightarrow> parse block)))"

section \<open>Sample inputs\<close>

definition rep :: "string option \<Rightarrow> string option \<Rightarrow> report" where
  "rep t l = \<lparr>report_id = ''r'', type = t, location = l, createdAt = Some 3\<rparr>"

definition scenario :: "report list" where
  "scenario = [rep (Some ''Flu'') (Some ''Delhi''), rep (Some ''flu'') (Some '' delhi ''),
               rep (Some ''Dengue'') (Some ''Mumbai'')]"

definition blank_located :: report where
  "blank_located = rep (Some ''Flu'') (Some '' '')"

definition unlocated :: report where
  "unlocated = rep (Some ''Flu'') None"

definition sample_text :: string where
  \<open>sample_text = ''Here is the summary: {"delhi": {"flu": 12}} as requested.''\<close>

definition sample_block :: string where
  \<open>sample_block = ''{"delhi": {"flu": 12}}''\<close>

definition sample_parse :: "string \<Rightarrow> Aggregated option" where
  "sample_parse s = (if s = sample_block then Some [(''delhi'', [(''flu'', 12)])] else None)"

text \<open>
  A text with two blocks, and \<open>JSON.parse\<close> on the texts used with it: the number
  \<open>12\<close> and the two blocks are JSON; the whole text, and its span from the first
  opening brace to the last closing brace, are not. Of the values, a table is an
  object and a number is not.
\<close>

datatype sample_value = Number nat | Table "(string \<times> nat) list"

definition two_blocks :: string where
  \<open>two_blocks = ''Result: {"a":1} and {"b":2}''\<close>

definition JSON_parse_samples :: "string \<Rightarrow> sample_value option" where
  \<open>JSON_parse_samples s =
     (if s = ''{"a":1}'' then Some (Table [(''a'', 1)])
      else if s = ''{"b":2}'' then Some (Table [(''b'', 2)])
      else if s = ''12'' then Some (Number 12)
      else None)\<close>

definition is_object_sample :: "sample_value \<Rightarrow> bool" where
  "is_object_sample v = (case v of Table _ \<Rightarrow> True | Number _ \<Rightarrow> False)"

definition failing_env :: "Aggregated fetch_env" where
  "failing_env = \<lparr>API_KEY = Some ''key'', API_URL = Some ''https://example.org/generate'',
                   JSON_parse = sample_parse, is_object = (\<lambda>v. True),
                   response = Http_status 503\<rparr>"

definition box :: "nat \<Rightarrow> Aggregated outbreak_box" where
  "box n = \<lparr>globalReports = [], isLoading = False, error = None, retryCount = n, timeouts = []\<rparr>"

definition empty_thread :: thread where
  "empty_thread = \<lparr>thread_messages = [], payment_status = None\<rparr>"

definition blank :: component where
  "blank = \<lparr>messages = [], problemDiagnosis = [], medicineNames = [], dosageInstructions = [],
            date = [], hasDoctorSentFirst = False, paymentClaimed = False,
            paymentVerified = False, showVerificationPopup = False\<rparr>"

definition link_note :: Message where
  "link_note = \<lparr>message_id = ''1700000000002-9'', sender = gemini, message_type = buyLink,
                 message_text = ''Error fetching buy links from the API. Please try again.'',
                 timestamp = 1700000000002\<rparr>"

definition doctor_env :: env where
  "doctor_env = \<lparr>role = Doctor, patientId = Some ''p1'', user = Some ''d1'',
                 generateId = ''1700000000000-7'', now = 1700000000000,
                 accepts = (\<lambda>x. True), buy_links = None, links_error = link_note\<rparr>"

definition patient_env :: env where
  "patient_env = \<lparr>role = Patient, patientId = None, user = Some ''p1'',
                 generateId = ''1700000000001-8'', now = 1700000000001,
                 accepts = (\<lambda>x. True), buy_links = None, links_error = link_note\<rparr>"

definition thread_with :: "PaymentStatus \<Rightarrow> database" where
  "thread_with p = (\<lambda>t. empty_thread\<lparr>payment_status := Some p\<rparr>)"

definition sample_run :: "(env \<times> control \<times> component) list" where
  "sample_run = [(patient_env, Confirm_Payment, blank\<lparr>hasDoctorSentFirst := True\<rparr>),
                 (doctor_env, Verify_Yes, blank)]"

definition filled_form :: component where
  "filled_form = blank\<lparr>problemDiagnosis := ''Flu'', medicineNames := ''Paracetamol'',
                       dosageInstructions := ''Twice a day'', date := ''2025-01-31''\<rparr>"

definition undated_form :: component where
  "undated_form = filled_form\<lparr>date := []\<rparr>"

definition sample_prescription :: Message where
  "sample_prescription = \<lparr>message_id = ''1700000000000-7'', sender = doctor,
     message_type = prescription, message_text = prescription_text filled_form,
     timestamp = 1700000000000\<rparr>"

definition sent_thread :: "PaymentStatus \<Rightarrow> database" where
  "sent_thread p = (\<lambda>t. \<lparr>thread_messages = [(''1700000000000-7'', sample_prescription)],
                          payment_status = Some p\<rparr>)"

section \<open>Plain objects: the list of entries\<close>

lemma Object_entries_set [simp]: "set (Object_entries obj) = set obj"
  by (auto simp: Object_entries_def)

lemma Object_entries_Nil [simp]: "Object_entries [] = []"
  by (simp add: Object_entries_def)

lemma length_Object_entries [simp]: "length (Object_entries obj) = length obj"
  by (simp add: Object_entries_def sum_length_filter_compl)

lemma Object_values_empty [simp]: "Object_values obj = [] \<longleftrightarrow> obj = []"
  using length_Object_entries [of obj] by (auto simp: Object_values_def simp del: length_Object_entries)

lemma sort_key_empty [simp]: "sort_key f xs = [] \<longleftrightarrow> xs = []"
  using length_sort [of f xs] by (auto simp del: length_sort)

section \<open>The aggregator: keys\<close>

lemma upper_not_space: "is_upper_case c \<Longrightarrow> \<not> is_white_space c"
  by (auto simp: is_upper_case_def is_white_space_def Let_def)

lemma of_char_lower:
  "is_upper_case c \<Longrightarrow> of_char (toLowerCase_char c) = (of_char c + 32 :: nat)"
proof -
  assume u: "is_upper_case c"
  then have "(of_char c :: nat) + 32 < 256"
    by (auto simp: is_upper_case_def Let_def)
  then show ?thesis
    using u by (simp add: toLowerCase_char_def of_char_of)
qed

lemma lower_space [simp]: "is_white_space (toLowerCase_char c) = is_white_space c"
proof (cases "is_upper_case c")
  case True
  then have "\<not> is_white_space (toLowerCase_char c)"
    using of_char_lower [OF True]
    by (auto simp: is_white_space_def is_upper_case_def Let_def)
  then show ?thesis using upper_not_space [OF True] by simp
next
  case False
  then show ?thesis by (simp add: toLowerCase_char_def)
qed

lemma lower_not_upper: "\<not> is_upper_case (toLowerCase_char c)"
proof (cases "is_upper_case c")
  case True
  then show ?thesis
    using of_char_lower [OF True]
    by (auto simp: is_upper_case_def Let_def)
next
  case False
  then show ?thesis by (simp add: toLowerCase_char_def)
qed

lemma lower_idem [simp]: "toLowerCase_char (toLowerCase_char c) = toLowerCase_char c"
  using lower_not_upper [of c] by (simp add: toLowerCase_char_def [of "toLowerCase_char c"])

lemma toLowerCase_idem [simp]: "toLowerCase (toLowerCase s) = toLowerCase s"
  by (simp add: toLowerCase_def)

lemma space_after_lower: "is_white_space \<circ> toLowerCase_char = is_white_space"
  by (rule ext) simp

lemma trim_toLowerCase: "trim (toLowerCase s) = toLowerCase (trim s)"
  by (simp add: trim_def toLowerCase_def dropWhile_map rev_map space_after_lower)

lemma dropWhile_all_Nil: "list_all P xs \<Longrightarrow> dropWhile P xs = []"
  by (induction xs) auto

lemma dropWhile_all: "list_all P xs \<Longrightarrow> dropWhile P (xs @ ys) = dropWhile P ys"
  by (induction xs) auto

lemma trim_outer:
  assumes "list_all is_white_space p" "list_all is_white_space s"
  shows "trim (p @ c @ s) = trim c"
proof -
  have "dropWhile is_white_space (p @ c @ s) = dropWhile is_white_space (c @ s)"
    using assms(1) by (rule dropWhile_all)
  moreover have "dropWhile is_white_space (rev (dropWhile is_white_space (c @ s)))
      = dropWhile is_white_space (rev (dropWhile is_white_space c))"
  proof (cases "list_all is_white_space c")
    case True
    then have "dropWhile is_white_space (c @ s) = dropWhile is_white_space s"
      by (rule dropWhile_all)
    also have "\<dots> = []"
      using assms(2) by (rule dropWhile_all_Nil)
    also have "[] = dropWhile is_white_space c"
      using True by (rule dropWhile_all_Nil [symmetric])
    finally show ?thesis by (rule arg_cong)
  next
    case False
    then have "dropWhile is_white_space (c @ s) = dropWhile is_white_space c @ s"
      by (auto simp: list_all_iff dropWhile_append1)
    moreover have "list_all is_white_space (rev s)"
      using assms(2) by (simp add: list_all_iff)
    ultimately show ?thesis by (simp add: dropWhile_all)
  qed
  ultimately show ?thesis by (simp add: trim_def)
qed

lemma white_space_characters_trimmed: "list_all is_white_space white_space_characters"
  by code_simp

lemma letter_pairs_lower:
  "list_all (\<lambda>p. toLowerCase_char (fst p) = snd p \<and> toLowerCase_char (snd p) = snd p) letter_pairs"
  by code_simp

lemma white_space_character: "c \<in> set white_space_characters \<Longrightarrow> is_white_space c"
  using white_space_characters_trimmed by (simp add: list_all_iff)

lemma letter_pair: "(c, d) \<in> set letter_pairs \<Longrightarrow> toLowerCase_char c = d \<and> toLowerCase_char d = d"
  using letter_pairs_lower by (auto simp: list_all_iff)

lemma same_letter_lower: "same_letter c d \<Longrightarrow> toLowerCase_char c = toLowerCase_char d"
  unfolding same_letter_def using letter_pair [of c d] letter_pair [of d c] by auto

lemma same_letters_lower: "list_all2 same_letter a b \<Longrightarrow> toLowerCase a = toLowerCase b"
  by (induction rule: list_all2_induct) (auto simp: toLowerCase_def same_letter_lower)

lemma normalize_invariant:
  assumes "differ_only_in_case_or_outer_space a b"
  shows "toLowerCase (trim a) = toLowerCase (trim b)"
proof -
  obtain pa ca sa pb cb sb where
    a: "a = pa @ ca @ sa" and b: "b = pb @ cb @ sb"
    and w: "list_all (\<lambda>c. c \<in> set white_space_characters) (pa @ sa @ pb @ sb)"
    and l: "list_all2 same_letter ca cb"
    using assms by (auto simp: differ_only_in_case_or_outer_space_def)
  have ws: "list_all is_white_space pa" "list_all is_white_space sa"
           "list_all is_white_space pb" "list_all is_white_space sb"
    using w white_space_character by (auto simp: list_all_iff)
  have "toLowerCase (trim a) = trim (toLowerCase ca)"
    using ws by (simp add: a trim_outer trim_toLowerCase)
  also have "\<dots> = trim (toLowerCase cb)"
    using same_letters_lower [OF l] by simp
  also have "\<dots> = toLowerCase (trim b)"
    using ws by (simp add: b trim_outer trim_toLowerCase)
  finally show ?thesis .
qed

lemma trim_all_space: "list_all is_white_space s \<Longrightarrow> trim s = []"
  by (simp add: trim_def dropWhile_all_Nil)

lemma differI:
  "a = pa @ ca @ sa \<Longrightarrow> b = pb @ cb @ sb
   \<Longrightarrow> list_all (\<lambda>c. c \<in> set white_space_characters) (pa @ sa @ pb @ sb)
   \<Longrightarrow> list_all2 same_letter ca cb \<Longrightarrow> differ_only_in_case_or_outer_space a b"
  unfolding differ_only_in_case_or_outer_space_def by (intro exI conjI)

lemma differ_example: "differ_only_in_case_or_outer_space ''Delhi'' '' delhi ''"
proof (rule differI [of _ "[]" "''Delhi''" "[]" _ "'' ''" "''delhi''" "'' ''"])
  show "list_all (\<lambda>c. c \<in> set white_space_characters) ([] @ [] @ '' '' @ '' '')"
    by code_simp
  show "list_all2 same_letter ''Delhi'' ''delhi''"
    by code_simp
qed simp_all

lemma differ_flu: "differ_only_in_case_or_outer_space ''Flu'' ''flu''"
proof (rule differI [of _ "[]" "''Flu''" "[]" _ "[]" "''flu''" "[]"])
  show "list_all2 same_letter ''Flu'' ''flu''"
    by code_simp
qed simp_all

lemma differ_empty: "differ_only_in_case_or_outer_space [] '' ''"
proof (rule differI [of _ "[]" "[]" "[]" _ "'' ''" "[]" "[]"])
  show "list_all (\<lambda>c. c \<in> set white_space_characters) ([] @ [] @ '' '' @ [])"
    by code_simp
qed simp_all

text \<open>
  Claim C6, as stated, fails: the empty string and a single space differ only in
  leading and trailing white space, and the first is counted under \<open>unknown\<close>, the
  second under the empty key, because the fallback is taken before the trim.
\<close>

theorem empty_versus_blank_location_counterexample:
  "differ_only_in_case_or_outer_space [] '' ''
   \<and> city_of (rep (Some ''Flu'') (Some [])) = ''unknown''
   \<and> city_of (rep (Some ''Flu'') (Some '' '')) = []"
proof -
  have "city_of (rep (Some ''Flu'') (Some [])) = ''unknown''"
    by code_simp
  moreover have "city_of (rep (Some ''Flu'') (Some '' '')) = []"
    by code_simp
  ultimately show ?thesis using differ_empty by simp
qed

lemma scenario_table:
  "groupLocal scenario = Inr [(''delhi'', [(''flu'', 2)]), (''mumbai'', [(''dengue'', 1)])]"
  by code_simp

lemma scenario_entries:
  "localEntries [(''delhi'', [(''flu'', 2)]), (''mumbai'', [(''dengue'', 1)])]
     = [\<lparr>city = ''delhi'', diseases = [(''flu'', 2)], total = 2\<rparr>,
        \<lparr>city = ''mumbai'', diseases = [(''dengue'', 1)], total = 1\<rparr>]"
  by code_simp

lemma blank_and_missing_table:
  "groupLocal [blank_located, unlocated] = Inr [([], [(''flu'', 1)]), (''unknown'', [(''flu'', 1)])]"
  by code_simp

text \<open>
  Claim C10. The fallback \<open>Unknown\<close> is taken only for a field that is \<open>null\<close>,
  \<open>undefined\<close> or the empty string: a non-empty string is kept. A non-empty string of
  white space is therefore trimmed to the empty key, while a missing or empty field
  gets the key \<open>unknown\<close>; a report located \<open>" "\<close> and a report without location are
  counted under two different keys.
\<close>

theorem blank_field_is_not_unknown:
  "(s \<noteq> [] \<longrightarrow> or_else (Some s) ''Unknown'' = s)
   \<and> or_else None ''Unknown'' = ''Unknown'' \<and> or_else (Some []) ''Unknown'' = ''Unknown''
   \<and> (s \<noteq> [] \<and> list_all is_white_space s
        \<longrightarrow> city_of (r\<lparr>location := Some s\<rparr>) = [] \<and> disease_of (r\<lparr>type := Some s\<rparr>) = [])
   \<and> city_of (r\<lparr>location := None\<rparr>) = ''unknown''
   \<and> city_of (r\<lparr>location := Some []\<rparr>) = ''unknown''
   \<and> disease_of (r\<lparr>type := None\<rparr>) = ''unknown''
   \<and> disease_of (r\<lparr>type := Some []\<rparr>) = ''unknown''
   \<and> groupLocal [blank_located, unlocated]
       = Inr [([], [(''flu'', 1)]), (''unknown'', [(''flu'', 1)])]"
proof -
  have u: "toLowerCase (trim ''Unknown'') = ''unknown''"
    by code_simp
  have fallback: "(s \<noteq> [] \<longrightarrow> or_else (Some s) ''Unknown'' = s)
      \<and> or_else None ''Unknown'' = ''Unknown'' \<and> or_else (Some []) ''Unknown'' = ''Unknown''"
    by simp
  have blank_key: "s \<noteq> [] \<and> list_all is_white_space s
        \<longrightarrow> city_of (r\<lparr>location := Some s\<rparr>) = [] \<and> disease_of (r\<lparr>type := Some s\<rparr>) = []"
    using trim_all_space [of s] by (simp add: city_of_def disease_of_def toLowerCase_def)
  have "or_else (location (r\<lparr>location := None\<rparr>)) ''Unknown'' = ''Unknown''"
    "or_else (location (r\<lparr>location := Some []\<rparr>)) ''Unknown'' = ''Unknown''"
    "or_else (type (r\<lparr>type := None\<rparr>)) ''Unknown'' = ''Unknown''"
    "or_else (type (r\<lparr>type := Some []\<rparr>)) ''Unknown'' = ''Unknown''"
    by simp_all
  then have missing: "city_of (r\<lparr>location := None\<rparr>) = ''unknown''"
    "city_of (r\<lparr>location := Some []\<rparr>) = ''unknown''"
    "disease_of (r\<lparr>type := None\<rparr>) = ''unknown''"
    "disease_of (r\<lparr>type := Some []\<rparr>) = ''unknown''"
    using u by (simp_all only: city_of_def disease_of_def)
  show ?thesis
    using fallback blank_key missing blank_and_missing_table by blast
qed

theorem blank_field_is_not_unknown_witness:
  "or_else (Some '' '') ''Unknown'' = '' ''
   \<and> city_of blank_located = [] \<and> city_of unlocated = ''unknown''"
proof -
  have "list_all is_white_space '' ''"
    by (simp add: is_white_space_def)
  then show ?thesis
    using blank_field_is_not_unknown [of "'' ''" blank_located]
      blank_field_is_not_unknown [of "'' ''" unlocated]
    by (simp add: blank_located_def unlocated_def rep_def)
qed

section \<open>The aggregator: counts, totals and order\<close>

lemma map_of_write_property [simp]:
  "map_of (write_property obj k v) = (map_of obj)(k \<mapsto> v)"
  by (induction obj) (auto simp: fun_eq_iff)

lemma fst_write_property:
  "fst ` set (write_property obj k v) = insert k (fst ` set obj)"
  using dom_map_of_conv_image_fst [of "write_property obj k v"]
    dom_map_of_conv_image_fst [of obj]
  by simp

lemma read_property_cases:
  "read_property obj k = Own v \<longleftrightarrow> map_of obj k = Some v"
  "read_property obj k = Undefined \<longleftrightarrow> map_of obj k = None \<and> \<not> inherited_name k"
  "read_property obj k = Inherited \<longleftrightarrow> map_of obj k = None \<and> inherited_name k"
  by (auto simp: read_property_def inherited_name_def split: option.splits)

lemma count_report_Inr:
  assumes "count_report agg r = Inr agg'"
  shows "count_of agg' c d
           = count_of agg c d + (if city_of r = c \<and> disease_of r = d then 1 else 0)"
  using assms
  by (auto simp: count_report_def Let_def count_of_def read_property_cases
      split: property.splits option.splits if_splits)

lemma group_loop_counts:
  "group_loop agg rs = Inr agg' \<Longrightarrow> count_of agg' c d = count_of agg c d + matching rs c d"
proof (induction rs arbitrary: agg)
  case Nil
  then show ?case by (simp add: matching_def)
next
  case (Cons r rs)
  then obtain agg1 where 1: "count_report agg r = Inr agg1" and 2: "group_loop agg1 rs = Inr agg'"
    by (auto split: sum.splits)
  show ?case
    using Cons.IH [OF 2] count_report_Inr [OF 1, of c d] by (simp add: matching_def)
qed

lemma groupLocal_counts:
  "groupLocal rs = Inr agg \<Longrightarrow> count_of agg c d = matching rs c d"
  using group_loop_counts [of "[]" rs agg c d] by (simp add: groupLocal_def count_of_def)

lemma write_property_not_Nil [simp]: "write_property obj k v \<noteq> []"
  by (cases obj) (auto split: if_splits)

lemma sum_write_property:
  "sum_list (map snd (write_property obj k v)) + (case map_of obj k of None \<Rightarrow> 0 | Some n \<Rightarrow> n)
     = sum_list (map snd obj) + (v::nat)"
  by (induction obj) auto

lemma count_report_total:
  assumes "count_report agg r = Inr agg'"
  shows "city_total agg' c = city_total agg c + (if city_of r = c then 1 else 0)"
proof -
  have w: "map_of dis d = Some n \<Longrightarrow>
           sum_list (map snd (write_property dis d (Suc n))) = Suc (sum_list (map snd dis))"
    for dis d and n :: nat
    using sum_write_property [of dis d "Suc n"] by simp
  have u: "map_of dis d = None \<Longrightarrow>
           sum_list (map snd (write_property dis d (Suc 0))) = Suc (sum_list (map snd dis))"
    for dis :: counts and d
    using sum_write_property [of dis d "Suc 0"] by simp
  show ?thesis
    using assms
    by (auto simp: count_report_def Let_def city_total_def read_property_cases w u
        split: property.splits option.splits if_splits)
qed

lemma group_loop_totals:
  "group_loop agg rs = Inr agg' \<Longrightarrow>
   city_total agg' c = city_total agg c + length (filter (\<lambda>r. city_of r = c) rs)"
proof (induction rs arbitrary: agg)
  case Nil
  then show ?case by simp
next
  case (Cons r rs)
  then obtain agg1 where 1: "count_report agg r = Inr agg1" and 2: "group_loop agg1 rs = Inr agg'"
    by (auto split: sum.splits)
  show ?case
    using Cons.IH [OF 2] count_report_total [OF 1, of c] by simp
qed

lemma groupLocal_totals:
  "groupLocal rs = Inr agg \<Longrightarrow> city_total agg c = length (filter (\<lambda>r. city_of r = c) rs)"
  using group_loop_totals [of "[]" rs agg c] by (simp add: groupLocal_def city_total_def)

lemma distinct_write_property:
  "distinct (map fst obj) \<Longrightarrow> distinct (map fst (write_property obj k v))"
proof (induction obj)
  case Nil
  then show ?case by simp
next
  case (Cons p obj)
  then show ?case
    using fst_write_property [of obj k v] by (cases p) auto
qed

lemma list_all_write_property:
  "list_all P obj \<Longrightarrow> P (k, v) \<Longrightarrow> list_all P (write_property obj k v)"
  by (induction obj) auto

lemma map_of_list_all: "list_all P obj \<Longrightarrow> map_of obj k = Some v \<Longrightarrow> P (k, v)"
  by (induction obj) (auto split: if_splits)

lemma count_report_well_formed:
  assumes "count_report agg r = Inr agg'" "well_formed agg"
  shows "well_formed agg'"
proof -
  let ?P = "\<lambda>p. \<not> inherited_name (fst p) \<and> snd p \<noteq> [] \<and> distinct (map fst (snd p))
                       \<and> list_all (\<lambda>q. \<not> inherited_name (fst q) \<and> 0 < snd q) (snd p)"
  let ?Q = "\<lambda>q. \<not> inherited_name (fst q) \<and> 0 < (snd q :: nat)"
  have d: "distinct (map fst agg)" and a: "list_all ?P agg"
    using assms(2) by (simp_all add: well_formed_def)
  obtain dis' where agg': "agg' = write_property agg (city_of r) dis'" and P: "?P (city_of r, dis')"
  proof (cases "read_property agg (city_of r)")
    case (Own dis)
    then have m: "map_of agg (city_of r) = Some dis"
      by (simp add: read_property_cases)
    then have Pd: "?P (city_of r, dis)"
      using a map_of_list_all [of ?P agg "city_of r" dis] by blast
    show ?thesis
    proof (cases "read_property dis (disease_of r)")
      case (Own n)
      then have "agg' = write_property agg (city_of r) (write_property dis (disease_of r) (n + 1))"
        using assms(1) \<open>read_property agg (city_of r) = Own dis\<close>
        by (simp add: count_report_def Let_def)
      moreover have "map_of dis (disease_of r) = Some n"
        using Own by (simp add: read_property_cases)
      then have "\<not> inherited_name (disease_of r)"
        using Pd map_of_list_all [of ?Q dis "disease_of r" n] by auto
      then have "?P (city_of r, write_property dis (disease_of r) (n + 1))"
        using Pd by (simp add: distinct_write_property list_all_write_property
            del: distinct_map)
      ultimately show ?thesis using that by blast
    next
      case Inherited
      then show ?thesis
        using assms(1) \<open>read_property agg (city_of r) = Own dis\<close>
        by (simp add: count_report_def Let_def)
    next
      case Undefined
      then have "agg' = write_property agg (city_of r) (write_property dis (disease_of r) 1)"
        using assms(1) \<open>read_property agg (city_of r) = Own dis\<close>
        by (simp add: count_report_def Let_def)
      moreover have "\<not> inherited_name (disease_of r)"
        using Undefined by (simp add: read_property_cases)
      then have "?P (city_of r, write_property dis (disease_of r) 1)"
        using Pd by (simp add: distinct_write_property list_all_write_property
            del: distinct_map)
      ultimately show ?thesis using that by blast
    qed
  next
    case Inherited
    then show ?thesis
      using assms(1) by (simp add: count_report_def Let_def)
  next
    case Undefined
    then have c: "\<not> inherited_name (city_of r)"
      by (simp add: read_property_cases)
    have "read_property ([]::counts) (disease_of r) \<noteq> Own n" for n
      by (simp add: read_property_cases)
    then have "agg' = write_property agg (city_of r) [(disease_of r, 1)]
               \<and> \<not> inherited_name (disease_of r)"
      using assms(1) Undefined
      by (auto simp: count_report_def Let_def read_property_cases split: property.splits)
    then show ?thesis using that c by simp
  qed
  have "distinct (map fst agg')"
    using d by (simp add: agg' distinct_write_property del: distinct_map)
  moreover have "list_all ?P agg'"
    unfolding agg' using a P by (rule list_all_write_property)
  ultimately show ?thesis
    by (simp add: well_formed_def)
qed

lemma group_loop_well_formed:
  "group_loop agg rs = Inr agg' \<Longrightarrow> well_formed agg \<Longrightarrow> well_formed agg'"
proof (induction rs arbitrary: agg)
  case Nil
  then show ?case by simp
next
  case (Cons r rs)
  then obtain agg1 where 1: "count_report agg r = Inr agg1" and 2: "group_loop agg1 rs = Inr agg'"
    by (auto split: sum.splits)
  show ?case
    using Cons.IH [OF 2] count_report_well_formed [OF 1 Cons.prems(2)] by simp
qed

lemma groupLocal_well_formed: "groupLocal rs = Inr agg \<Longrightarrow> well_formed agg"
  using group_loop_well_formed [of "[]" rs agg] by (simp add: groupLocal_def well_formed_def)

lemma sorted_descending:
  "sorted_wrt (\<lambda>a b. f b \<le> f a) (sort_descending f xs)"
proof -
  have "sorted (map (\<lambda>x. - int (f x)) (sort_key (\<lambda>x. - int (f x)) xs))"
    by (rule sorted_sort_key)
  then show ?thesis
    by (simp add: sort_descending_def sorted_map)
qed

lemma set_sort_descending [simp]: "set (sort_descending f xs) = set xs"
  by (simp add: sort_descending_def)

lemma sum_insort_key: "sum_list (map h (insort_key f x xs)) = (h x :: nat) + sum_list (map h xs)"
  by (induction xs) auto

lemma sum_sort_key: "sum_list (map h (sort_key f xs)) = (sum_list (map h xs) :: nat)"
  by (induction xs) (auto simp: sum_insort_key)

lemma sum_filter_both:
  "sum_list (map h (filter P xs)) + sum_list (map h (filter (\<lambda>x. \<not> P x) xs))
     = (sum_list (map h xs) :: nat)"
  by (induction xs) auto

lemma sum_Object_entries: "sum_list (map snd (Object_entries obj)) = (sum_list (map snd obj) :: nat)"
  by (simp add: Object_entries_def sum_sort_key sum_filter_both)

lemma foldl_plus: "foldl (\<lambda>s n. s + n) a xs = (a :: nat) + sum_list xs"
  by (induction xs arbitrary: a) auto

lemma total_entry_of: "total (entry_of (c, dis)) = sum_list (map snd dis)"
  by (simp add: entry_of_def Object_values_def foldl_plus sum_Object_entries)

lemma diseases_entry_of:
  "set (diseases (entry_of (c, dis))) = set dis"
  "sum_list (map snd (diseases (entry_of (c, dis)))) = sum_list (map snd dis)"
  "sorted_wrt (\<lambda>p q. snd q \<le> snd p) (diseases (entry_of (c, dis)))"
  by (simp_all add: entry_of_def sorted_descending sum_Object_entries)
     (simp add: sort_descending_def sum_sort_key sum_Object_entries)

lemma set_localEntries: "set (localEntries agg) = entry_of ` set agg"
  by (simp add: localEntries_def)

lemma localEntries_sorted:
  "sorted_wrt (\<lambda>a b. total b \<le> total a) (localEntries agg)"
  by (simp add: localEntries_def sorted_descending)

lemma localEntries_empty: "groupLocal [] = Inr [] \<and> localEntries [] = []"
  by (simp add: groupLocal_def localEntries_def Object_entries_def sort_descending_def)

lemma group_loop_Inr_iff:
  "well_formed agg \<Longrightarrow>
   (\<exists>agg'. group_loop agg rs = Inr agg')
     \<longleftrightarrow> list_all (\<lambda>r. \<not> inherited_name (city_of r) \<and> \<not> inherited_name (disease_of r)) rs"
proof (induction rs arbitrary: agg)
  case Nil
  then show ?case by simp
next
  case (Cons r rs)
  let ?P = "\<lambda>p. \<not> inherited_name (fst p) \<and> snd p \<noteq> [] \<and> distinct (map fst (snd p))
                       \<and> list_all (\<lambda>q. \<not> inherited_name (fst q) \<and> 0 < snd q) (snd p)"
  let ?Q = "\<lambda>q. \<not> inherited_name (fst q) \<and> 0 < (snd q :: nat)"
  have a: "list_all ?P agg"
    using Cons.prems by (simp add: well_formed_def)
  have step: "(\<exists>agg1. count_report agg r = Inr agg1)
      \<longleftrightarrow> \<not> inherited_name (city_of r) \<and> \<not> inherited_name (disease_of r)"
  proof (cases "read_property agg (city_of r)")
    case (Own dis)
    then have m: "map_of agg (city_of r) = Some dis"
      by (simp add: read_property_cases)
    then have Pd: "?P (city_of r, dis)"
      using a map_of_list_all [of ?P agg "city_of r" dis] by blast
    show ?thesis
    proof (cases "read_property dis (disease_of r)")
      case (Own n)
      then have "map_of dis (disease_of r) = Some n"
        by (simp add: read_property_cases)
      then have "\<not> inherited_name (disease_of r)"
        using Pd map_of_list_all [of ?Q dis "disease_of r" n] by auto
      then show ?thesis
        using Pd Own \<open>read_property agg (city_of r) = Own dis\<close>
        by (simp add: count_report_def Let_def)
    next
      case Inherited
      then have "inherited_name (disease_of r)"
        by (simp add: read_property_cases)
      then show ?thesis
        using Inherited \<open>read_property agg (city_of r) = Own dis\<close>
        by (simp add: count_report_def Let_def)
    next
      case Undefined
      then have "\<not> inherited_name (disease_of r)"
        by (simp add: read_property_cases)
      then show ?thesis
        using Pd Undefined \<open>read_property agg (city_of r) = Own dis\<close>
        by (simp add: count_report_def Let_def)
    qed
  next
    case Inherited
    then have "inherited_name (city_of r)"
      by (simp add: read_property_cases)
    then show ?thesis
      using Inherited by (simp add: count_report_def Let_def)
  next
    case Undefined
    then have c: "\<not> inherited_name (city_of r)"
      by (simp add: read_property_cases)
    show ?thesis
    proof (cases "read_property ([]::counts) (disease_of r)")
      case (Own n)
      then show ?thesis by (simp add: read_property_cases)
    next
      case Inherited
      then have "inherited_name (disease_of r)"
        by (simp add: read_property_cases)
      then show ?thesis
        using Inherited Undefined by (simp add: count_report_def Let_def)
    next
      case Undefined': Undefined
      then have "\<not> inherited_name (disease_of r)"
        by (simp add: read_property_cases)
      then show ?thesis
        using Undefined' Undefined c by (simp add: count_report_def Let_def)
    qed
  qed
  show ?case
  proof (cases "count_report agg r")
    case (Inl f)
    then show ?thesis using step by auto
  next
    case (Inr agg1)
    then have "well_formed agg1"
      using count_report_well_formed Cons.prems by blast
    then show ?thesis
      using Cons.IH [of agg1] Inr step by simp
  qed
qed

lemma groupLocal_Inr_iff:
  "(\<exists>agg. groupLocal rs = Inr agg)
     \<longleftrightarrow> list_all (\<lambda>r. \<not> inherited_name (city_of r) \<and> \<not> inherited_name (disease_of r)) rs"
  using group_loop_Inr_iff [of "[]" rs] by (simp add: groupLocal_def well_formed_def)

lemma lower_case_names:
  "filter (\<lambda>n. toLowerCase n = n) Object_prototype_names = [''constructor'', ''__proto__'']"
  by code_simp

lemma inherited_lower_case:
  "inherited_name (toLowerCase x) \<longleftrightarrow> toLowerCase x = ''constructor'' \<or> toLowerCase x = ''__proto__''"
proof
  assume "inherited_name (toLowerCase x)"
  then have "toLowerCase x \<in> set (filter (\<lambda>n. toLowerCase n = n) Object_prototype_names)"
    by (simp add: inherited_name_def)
  then show "toLowerCase x = ''constructor'' \<or> toLowerCase x = ''__proto__''"
    by (simp only: lower_case_names) simp
next
  assume "toLowerCase x = ''constructor'' \<or> toLowerCase x = ''__proto__''"
  then show "inherited_name (toLowerCase x)"
    by (auto simp: inherited_name_def Object_prototype_names_def)
qed

lemma inherited_keys:
  "inherited_name (city_of r) \<longleftrightarrow> city_of r = ''constructor'' \<or> city_of r = ''__proto__''"
  "inherited_name (disease_of r) \<longleftrightarrow> disease_of r = ''constructor'' \<or> disease_of r = ''__proto__''"
  by (simp_all only: city_of_def disease_of_def inherited_lower_case)

lemma well_formed_lookup:
  assumes "well_formed agg" "(c, dis) \<in> set agg"
  shows "map_of agg c = Some dis" "distinct (map fst dis)" "dis \<noteq> []"
  using assms by (auto simp: well_formed_def list_all_iff)

text \<open>
  The aggregator on a collection none of whose keys is \<open>constructor\<close> or \<open>__proto__\<close>:
  the table is produced, every count is the number of matching reports, and the
  sorted projection has one entry for each city of the collection, with the counts
  of each entry in descending order, its total the sum of its counts and the number
  of reports of that city, and the entries in descending order of total.
\<close>

lemma aggregator_without_inherited_names:
  assumes "list_all (\<lambda>r. city_of r \<notin> {''constructor'', ''__proto__''}
                        \<and> disease_of r \<notin> {''constructor'', ''__proto__''}) rs"
  shows "\<exists>agg. groupLocal rs = Inr agg
           \<and> (\<forall>c d. count_of agg c d = matching rs c d)
           \<and> sorted_wrt (\<lambda>a b. total b \<le> total a) (localEntries agg)
           \<and> city ` set (localEntries agg) = city_of ` set rs
           \<and> (\<forall>e \<in> set (localEntries agg).
                 sorted_wrt (\<lambda>p q. snd q \<le> snd p) (diseases e)
                 \<and> total e = sum_list (map snd (diseases e))
                 \<and> total e = length (filter (\<lambda>r. city_of r = city e) rs)
                 \<and> (\<forall>p \<in> set (diseases e). 0 < snd p \<and> snd p = matching rs (city e) (fst p)))"
proof -
  have "list_all (\<lambda>r. \<not> inherited_name (city_of r) \<and> \<not> inherited_name (disease_of r)) rs"
    using assms by (simp add: inherited_keys list_all_iff)
  then obtain agg where agg: "groupLocal rs = Inr agg"
    using groupLocal_Inr_iff [of rs] by blast
  have wf: "well_formed agg"
    using agg by (rule groupLocal_well_formed)
  have counts: "count_of agg c d = matching rs c d" for c d
    using agg by (rule groupLocal_counts)
  have totals: "city_total agg c = length (filter (\<lambda>r. city_of r = c) rs)" for c
    using agg by (rule groupLocal_totals)
  have entry: "sorted_wrt (\<lambda>p q. snd q \<le> snd p) (diseases e)
                 \<and> total e = sum_list (map snd (diseases e))
                 \<and> total e = length (filter (\<lambda>r. city_of r = city e) rs)
                 \<and> (\<forall>p \<in> set (diseases e). 0 < snd p \<and> snd p = matching rs (city e) (fst p))"
    if e_in: "e \<in> set (localEntries agg)" for e
  proof -
    obtain c dis where cd: "(c, dis) \<in> set agg" and e: "e = entry_of (c, dis)"
      using e_in by (auto simp: set_localEntries)
    have m: "map_of agg c = Some dis" and dd: "distinct (map fst dis)"
      using well_formed_lookup [OF wf cd] by simp_all
    have c: "city e = c"
      by (simp add: e entry_of_def)
    have t: "total e = length (filter (\<lambda>r. city_of r = c) rs)"
      using totals [of c] m by (simp add: e total_entry_of city_total_def)
    have p: "0 < snd p \<and> snd p = matching rs c (fst p)" if p_in: "p \<in> set (diseases e)" for p
    proof -
      have "p \<in> set dis"
        using p_in by (simp add: e diseases_entry_of)
      then have "map_of dis (fst p) = Some (snd p)"
        using dd map_of_is_SomeI [of dis "fst p" "snd p"] by simp
      moreover have "0 < snd p"
        using wf cd \<open>p \<in> set dis\<close> by (auto simp: well_formed_def list_all_iff)
      ultimately show ?thesis
        using counts [of c "fst p"] m by (simp add: count_of_def)
    qed
    have "sorted_wrt (\<lambda>p q. snd q \<le> snd p) (diseases e)"
      "total e = sum_list (map snd (diseases e))"
      by (simp_all add: e diseases_entry_of total_entry_of)
    then show ?thesis
      using t p c by blast
  qed
  have cities: "city ` set (localEntries agg) = city_of ` set rs"
  proof -
    have "city ` set (localEntries agg) = fst ` set agg"
      by (force simp: set_localEntries entry_of_def)
    also have "\<dots> = {c. city_total agg c > 0}"
    proof (intro set_eqI iffI)
      fix c assume "c \<in> fst ` set agg"
      then obtain dis where cd: "(c, dis) \<in> set agg" by auto
      have "sum_list (map snd dis) > 0"
      proof (cases dis)
        case Nil
        then show ?thesis using well_formed_lookup(3) [OF wf cd] by simp
      next
        case (Cons q qs)
        then have "0 < snd q"
          using wf cd by (auto simp: well_formed_def list_all_iff)
        then show ?thesis using Cons by simp
      qed
      then show "c \<in> {c. city_total agg c > 0}"
        using well_formed_lookup(1) [OF wf cd] by (simp add: city_total_def)
    next
      fix c assume "c \<in> {c. city_total agg c > 0}"
      then obtain dis where "map_of agg c = Some dis"
        by (auto simp: city_total_def split: option.splits)
      then show "c \<in> fst ` set agg"
        by (force dest: map_of_SomeD)
    qed
    also have "\<dots> = city_of ` set rs"
      by (auto simp: totals filter_empty_conv image_iff)
    finally show ?thesis .
  qed
  show ?thesis
    using agg counts localEntries_sorted [of agg] cities entry by blast
qed

lemma city_of_related:
  assumes "location r1 = Some a" "location r2 = Some b" "a \<noteq> []" "b \<noteq> []" "differ_only_in_case_or_outer_space a b"
  shows "city_of r2 = city_of r1"
  using normalize_invariant [OF assms(5)] assms(1-4) by (simp add: city_of_def)

lemma disease_of_related:
  assumes "type r1 = Some a" "type r2 = Some b" "a \<noteq> []" "b \<noteq> []" "differ_only_in_case_or_outer_space a b"
  shows "disease_of r2 = disease_of r1"
  using normalize_invariant [OF assms(5)] assms(1-4) by (simp add: disease_of_def)

lemma two_in_filter: "P r1 \<Longrightarrow> P r2 \<Longrightarrow> 2 \<le> length (filter P (xs @ r1 # ys @ r2 # zs))"
  by simp

lemma both_counted:
  assumes keys: "list_all (\<lambda>r. city_of r \<notin> {''constructor'', ''__proto__''}
                        \<and> disease_of r \<notin> {''constructor'', ''__proto__''}) (xs @ r1 # ys @ r2 # zs)"
  shows "\<exists>agg. groupLocal (xs @ r1 # ys @ r2 # zs) = Inr agg
           \<and> (city_of r2 = city_of r1 \<longrightarrow> 2 \<le> city_total agg (city_of r1))
           \<and> (city_of r2 = city_of r1 \<and> disease_of r2 = disease_of r1
                \<longrightarrow> 2 \<le> count_of agg (city_of r1) (disease_of r1))"
proof -
  let ?rs = "xs @ r1 # ys @ r2 # zs"
  have "list_all (\<lambda>r. \<not> inherited_name (city_of r) \<and> \<not> inherited_name (disease_of r)) ?rs"
    using keys by (simp add: inherited_keys list_all_iff)
  then obtain agg where agg: "groupLocal ?rs = Inr agg"
    using groupLocal_Inr_iff [of ?rs] by blast
  have "city_of r2 = city_of r1 \<longrightarrow> 2 \<le> city_total agg (city_of r1)"
    unfolding groupLocal_totals [OF agg] by simp
  moreover have "city_of r2 = city_of r1 \<and> disease_of r2 = disease_of r1
                \<longrightarrow> 2 \<le> count_of agg (city_of r1) (disease_of r1)"
    unfolding groupLocal_counts [OF agg] matching_def by simp
  ultimately show ?thesis using agg by blast
qed

text \<open>
  Claim C6, amended. Two reports whose location fields (or type fields) are non-empty
  strings that differ only in letter case or in leading and trailing white space get
  the same key. In a collection none of whose keys is \<open>constructor\<close> or \<open>__proto__\<close>,
  two reports so related by their locations are both counted under that one city: the
  total of the city is the number of reports of the collection with that key, which is
  at least two; when their types are so related as well, both are counted in the same
  count of the table, which is the number of matching reports and at least two. The
  three reports of the scenario aggregate to \<open>{delhi: {flu: 2}, mumbai: {dengue: 1}}\<close>,
  with the sorted entries delhi (total 2) and mumbai (total 1).
\<close>

theorem keys_invariant_under_case_and_outer_space:
  "(a \<noteq> [] \<and> b \<noteq> [] \<and> differ_only_in_case_or_outer_space a b
      \<longrightarrow> city_of (r\<lparr>location := Some a\<rparr>) = city_of (r'\<lparr>location := Some b\<rparr>)
        \<and> disease_of (r\<lparr>type := Some a\<rparr>) = disease_of (r'\<lparr>type := Some b\<rparr>))
   \<and> (list_all (\<lambda>r. city_of r \<notin> {''constructor'', ''__proto__''}
                     \<and> disease_of r \<notin> {''constructor'', ''__proto__''}) (xs @ r1 # ys @ r2 # zs)
       \<and> location r1 = Some a \<and> location r2 = Some b \<and> a \<noteq> [] \<and> b \<noteq> [] \<and> differ_only_in_case_or_outer_space a b
      \<longrightarrow> (\<exists>agg. groupLocal (xs @ r1 # ys @ r2 # zs) = Inr agg
             \<and> city_of r2 = city_of r1
             \<and> city_total agg (city_of r1)
                 = length (filter (\<lambda>r. city_of r = city_of r1) (xs @ r1 # ys @ r2 # zs))
             \<and> 2 \<le> city_total agg (city_of r1)
             \<and> (\<forall>ta tb. type r1 = Some ta \<and> type r2 = Some tb \<and> ta \<noteq> [] \<and> tb \<noteq> []
                          \<and> differ_only_in_case_or_outer_space ta tb
                   \<longrightarrow> disease_of r2 = disease_of r1
                       \<and> count_of agg (city_of r1) (disease_of r1)
                           = matching (xs @ r1 # ys @ r2 # zs) (city_of r1) (disease_of r1)
                       \<and> 2 \<le> count_of agg (city_of r1) (disease_of r1))))
   \<and> groupLocal scenario = Inr [(''delhi'', [(''flu'', 2)]), (''mumbai'', [(''dengue'', 1)])]
   \<and> localEntries [(''delhi'', [(''flu'', 2)]), (''mumbai'', [(''dengue'', 1)])]
       = [\<lparr>city = ''delhi'', diseases = [(''flu'', 2)], total = 2\<rparr>,
          \<lparr>city = ''mumbai'', diseases = [(''dengue'', 1)], total = 1\<rparr>]"
proof -
  let ?rs = "xs @ r1 # ys @ r2 # zs"
  have key: "a \<noteq> [] \<and> b \<noteq> [] \<and> differ_only_in_case_or_outer_space a b
      \<longrightarrow> city_of (r\<lparr>location := Some a\<rparr>) = city_of (r'\<lparr>location := Some b\<rparr>)
        \<and> disease_of (r\<lparr>type := Some a\<rparr>) = disease_of (r'\<lparr>type := Some b\<rparr>)"
    using normalize_invariant [of a b] by (simp add: city_of_def disease_of_def)
  have counted: "\<exists>agg. groupLocal ?rs = Inr agg
             \<and> city_of r2 = city_of r1
             \<and> city_total agg (city_of r1) = length (filter (\<lambda>r. city_of r = city_of r1) ?rs)
             \<and> 2 \<le> city_total agg (city_of r1)
             \<and> (\<forall>ta tb. type r1 = Some ta \<and> type r2 = Some tb \<and> ta \<noteq> [] \<and> tb \<noteq> []
                          \<and> differ_only_in_case_or_outer_space ta tb
                   \<longrightarrow> disease_of r2 = disease_of r1
                       \<and> count_of agg (city_of r1) (disease_of r1)
                           = matching ?rs (city_of r1) (disease_of r1)
                       \<and> 2 \<le> count_of agg (city_of r1) (disease_of r1))"
    if keys: "list_all (\<lambda>r. city_of r \<notin> {''constructor'', ''__proto__''}
                     \<and> disease_of r \<notin> {''constructor'', ''__proto__''}) ?rs"
      and loc: "location r1 = Some a" "location r2 = Some b" "a \<noteq> []" "b \<noteq> []" "differ_only_in_case_or_outer_space a b"
  proof -
    obtain agg where agg: "groupLocal ?rs = Inr agg"
      and tot: "city_of r2 = city_of r1 \<longrightarrow> 2 \<le> city_total agg (city_of r1)"
      and cnt: "city_of r2 = city_of r1 \<and> disease_of r2 = disease_of r1
                \<longrightarrow> 2 \<le> count_of agg (city_of r1) (disease_of r1)"
      using both_counted [OF keys] by blast
    have c: "city_of r2 = city_of r1"
      using loc by (rule city_of_related)
    have "disease_of r2 = disease_of r1
            \<and> count_of agg (city_of r1) (disease_of r1) = matching ?rs (city_of r1) (disease_of r1)
            \<and> 2 \<le> count_of agg (city_of r1) (disease_of r1)"
      if "type r1 = Some ta" "type r2 = Some tb" "ta \<noteq> []" "tb \<noteq> []" "differ_only_in_case_or_outer_space ta tb" for ta tb
      using disease_of_related [OF that] cnt c groupLocal_counts [OF agg] by simp
    then show ?thesis
      using agg c tot groupLocal_totals [OF agg] by blast
  qed
  show ?thesis
    using key counted scenario_table scenario_entries by blast
qed


theorem keys_invariant_under_case_and_outer_space_witness:
  "differ_only_in_case_or_outer_space ''Delhi'' '' delhi '' \<and> differ_only_in_case_or_outer_space ''Flu'' ''flu''
   \<and> (\<exists>agg. groupLocal scenario = Inr agg
          \<and> city_of (rep (Some ''flu'') (Some '' delhi '')) = ''delhi''
          \<and> 2 \<le> city_total agg ''delhi''
          \<and> disease_of (rep (Some ''flu'') (Some '' delhi '')) = ''flu''
          \<and> 2 \<le> count_of agg ''delhi'' ''flu'')"
proof -
  let ?r1 = "rep (Some ''Flu'') (Some ''Delhi'')"
  let ?r2 = "rep (Some ''flu'') (Some '' delhi '')"
  let ?r3 = "rep (Some ''Dengue'') (Some ''Mumbai'')"
  have sc: "[] @ ?r1 # [] @ ?r2 # [?r3] = scenario"
    by (simp add: scenario_def)
  have keys: "list_all (\<lambda>r. city_of r \<notin> {''constructor'', ''__proto__''}
                     \<and> disease_of r \<notin> {''constructor'', ''__proto__''}) ([] @ ?r1 # [] @ ?r2 # [?r3])"
    by code_simp
  have loc: "location ?r1 = Some ''Delhi''" "location ?r2 = Some '' delhi ''"
    and tys: "type ?r1 = Some ''Flu''" "type ?r2 = Some ''flu''"
    by (simp_all add: rep_def)
  have ne: "''Delhi'' \<noteq> []" "'' delhi '' \<noteq> []" "''Flu'' \<noteq> []" "''flu'' \<noteq> []"
    by simp_all
  have k1: "city_of ?r1 = ''delhi''" and d1: "disease_of ?r1 = ''flu''"
    by code_simp+
  note T = keys_invariant_under_case_and_outer_space
      [where a = "''Delhi''" and b = "'' delhi ''" and xs = "[]" and ?r1.0 = ?r1 and ys = "[]"
         and ?r2.0 = ?r2 and zs = "[?r3]", THEN conjunct2, THEN conjunct1, THEN mp]
  have "\<exists>agg. groupLocal scenario = Inr agg
          \<and> city_of ?r2 = ''delhi''
          \<and> 2 \<le> city_total agg ''delhi''
          \<and> disease_of ?r2 = ''flu''
          \<and> 2 \<le> count_of agg ''delhi'' ''flu''"
    using T [OF conjI [OF keys conjI [OF loc(1) conjI [OF loc(2) conjI [OF ne(1) conjI [OF ne(2) differ_example]]]]]]
      tys ne(3,4) differ_flu
    unfolding sc k1 d1 by blast
  then show ?thesis
    using differ_example differ_flu by simp
qed

text \<open>
  Claim C1 fails on a report located \<open>constructor\<close>. The read \<open>agg["constructor"]\<close>
  finds the inherited \<open>Object\<close> function, so no own entry is made for the city and
  the increment is written on that function: one report matches the pair
  (constructor, flu), and the table holds no count for it.
\<close>

theorem report_located_constructor_is_not_counted:
  "city_of (rep (Some ''Flu'') (Some ''constructor'')) = ''constructor''
   \<and> disease_of (rep (Some ''Flu'') (Some ''constructor'')) = ''flu''
   \<and> matching [rep (Some ''Flu'') (Some ''constructor'')] ''constructor'' ''flu'' = 1
   \<and> groupLocal [rep (Some ''Flu'') (Some ''constructor'')] = Inl (Inherited_Property ''constructor'')"
  by code_simp

text \<open>
  Claim C5 fails on a report of type \<open>constructor\<close>. The read
  \<open>agg["delhi"]["constructor"]\<close> finds the inherited \<open>Object\<close> function, and
  \<open>(... || 0) + 1\<close> is then a string: the entry of the city holds no count for the
  report and its total is no sum of counts.
\<close>

theorem report_typed_constructor_is_not_counted:
  "city_of (rep (Some ''constructor'') (Some ''Delhi'')) = ''delhi''
   \<and> disease_of (rep (Some ''constructor'') (Some ''Delhi'')) = ''constructor''
   \<and> groupLocal [rep (Some ''constructor'') (Some ''Delhi'')] = Inl (Inherited_Property ''constructor'')"
  by code_simp

section \<open>The global outbreak fetch: parsing and retrying\<close>

lemma match_braces_Some:
  assumes "match_braces t = Some b"
  shows "\<exists>pre post. t = pre @ b @ post \<and> CHR ''{'' \<notin> set pre \<and> CHR ''}'' \<notin> set post
           \<and> hd b = CHR ''{'' \<and> last b = CHR ''}''"
proof -
  define pre where "pre = takeWhile (\<lambda>c. c \<noteq> CHR ''{'') t"
  define from_open where "from_open = dropWhile (\<lambda>c. c \<noteq> CHR ''{'') t"
  define post where "post = rev (takeWhile (\<lambda>c. c \<noteq> CHR ''}'') (rev from_open))"
  have b: "b = rev (dropWhile (\<lambda>c. c \<noteq> CHR ''}'') (rev from_open))" and ne: "b \<noteq> []"
    using assms by (auto simp: match_braces_def Let_def from_open_def split: if_splits)
  have "rev from_open = rev post @ rev b"
    by (simp add: post_def b)
  then have split: "from_open = b @ post"
    by (metis rev_append rev_rev_ident)
  have "t = pre @ from_open"
    by (simp add: pre_def from_open_def)
  then have t: "t = pre @ b @ post"
    using split by simp
  have "CHR ''{'' \<notin> set pre"
    unfolding pre_def by (auto dest: set_takeWhileD)
  moreover have "CHR ''}'' \<notin> set post"
    unfolding post_def by (auto dest: set_takeWhileD)
  moreover have "hd b = CHR ''{''"
  proof -
    have "from_open \<noteq> []" using split ne by simp
    then have "hd from_open = CHR ''{''"
      unfolding from_open_def using hd_dropWhile [of "\<lambda>c. c \<noteq> CHR ''{''" t] by simp
    then show ?thesis using split ne by simp
  qed
  moreover have "last b = CHR ''}''"
  proof -
    have "dropWhile (\<lambda>c. c \<noteq> CHR ''}'') (rev from_open) \<noteq> []"
      using ne b by simp
    then have "hd (dropWhile (\<lambda>c. c \<noteq> CHR ''}'') (rev from_open)) = CHR ''}''"
      using hd_dropWhile [of "\<lambda>c. c \<noteq> CHR ''}''" "rev from_open"] by simp
    then show ?thesis using ne b by (simp add: last_rev)
  qed
  ultimately show ?thesis using t by blast
qed

lemma match_braces_None:
  "match_braces t = None \<longleftrightarrow> CHR ''}'' \<notin> set (dropWhile (\<lambda>c. c \<noteq> CHR ''{'') t)"
  by (auto simp: match_braces_def Let_def dropWhile_eq_Nil_conv)

lemma first_attempt_Some:
  "first_attempt parse is_obj t = Some v \<longleftrightarrow> parse t = Some v \<and> is_obj v"
  by (auto simp: first_attempt_def split: option.splits)

lemma second_attempt_Inr:
  "second_attempt parse t = Inr v \<longleftrightarrow> (\<exists>b. match_braces t = Some b \<and> parse b = Some v)"
  by (auto simp: second_attempt_def split: option.splits)

lemma parse_response_Inr:
  "parse_response parse is_obj x = Inr v \<longleftrightarrow>
     (\<exists>t. x = Some t \<and> t \<noteq> []
          \<and> (first_attempt parse is_obj t = Some v
              \<or> (first_attempt parse is_obj t = None \<and> second_attempt parse t = Inr v)))"
  by (auto simp: parse_response_def split: option.splits)

lemma parse_response_Inl:
  "isl (parse_response parse is_obj x) \<longleftrightarrow>
     (\<not> truthy x
      \<or> (\<exists>t. x = Some t \<and> first_attempt parse is_obj t = None
              \<and> isl (second_attempt parse t)))"
  by (cases x) (auto simp: parse_response_def split: option.splits)

lemma match_braces_decomposed:
  assumes "t = pre @ b @ post" "CHR ''{'' \<notin> set pre" "CHR ''}'' \<notin> set post"
    "b \<noteq> []" "hd b = CHR ''{''" "last b = CHR ''}''"
  shows "match_braces t = Some b"
proof -
  have "dropWhile (\<lambda>c. c \<noteq> CHR ''{'') (pre @ (b @ post)) = dropWhile (\<lambda>c. c \<noteq> CHR ''{'') (b @ post)"
    using assms(2) by (intro dropWhile_append2) auto
  also have "\<dots> = b @ post"
    using assms(4,5) by (cases b) auto
  finally have 1: "dropWhile (\<lambda>c. c \<noteq> CHR ''{'') t = b @ post"
    using assms(1) by simp
  have "dropWhile (\<lambda>c. c \<noteq> CHR ''}'') (rev post @ rev b) = dropWhile (\<lambda>c. c \<noteq> CHR ''}'') (rev b)"
    using assms(3) by (intro dropWhile_append2) auto
  also have "\<dots> = rev b"
    using assms(4,6) by (cases b rule: rev_cases) auto
  finally have 2: "dropWhile (\<lambda>c. c \<noteq> CHR ''}'') (rev (b @ post)) = rev b"
    by simp
  show ?thesis
    using assms(4) by (simp only: match_braces_def Let_def 1 2 rev_rev_ident if_False)
qed

lemma match_braces_iff:
  "match_braces t = Some b \<longleftrightarrow>
     (\<exists>pre post. t = pre @ b @ post \<and> CHR ''{'' \<notin> set pre \<and> CHR ''}'' \<notin> set post
        \<and> b \<noteq> [] \<and> hd b = CHR ''{'' \<and> last b = CHR ''}'')"
proof
  assume m: "match_braces t = Some b"
  then have "b \<noteq> []"
    by (auto simp: match_braces_def Let_def split: if_splits)
  then show "\<exists>pre post. t = pre @ b @ post \<and> CHR ''{'' \<notin> set pre \<and> CHR ''}'' \<notin> set post
        \<and> b \<noteq> [] \<and> hd b = CHR ''{'' \<and> last b = CHR ''}''"
    using match_braces_Some [OF m] by blast
next
  assume "\<exists>pre post. t = pre @ b @ post \<and> CHR ''{'' \<notin> set pre \<and> CHR ''}'' \<notin> set post
        \<and> b \<noteq> [] \<and> hd b = CHR ''{'' \<and> last b = CHR ''}''"
  then show "match_braces t = Some b"
    using match_braces_decomposed by blast
qed

lemma first_attempt_None:
  "first_attempt parse is_obj t = None \<longleftrightarrow> (\<forall>u. parse t = Some u \<longrightarrow> \<not> is_obj u)"
  by (auto simp: first_attempt_def split: option.splits)

lemma second_attempt_spans:
  "second_attempt parse t = Inr v \<longleftrightarrow>
     (\<exists>pre b post. t = pre @ b @ post \<and> CHR ''{'' \<notin> set pre \<and> CHR ''}'' \<notin> set post
        \<and> b \<noteq> [] \<and> hd b = CHR ''{'' \<and> last b = CHR ''}'' \<and> parse b = Some v)"
  unfolding second_attempt_Inr match_braces_iff by blast

lemma second_attempt_fails:
  "isl (second_attempt parse t) \<longleftrightarrow>
     (\<forall>pre b post. t = pre @ b @ post \<and> CHR ''{'' \<notin> set pre \<and> CHR ''}'' \<notin> set post
        \<and> b \<noteq> [] \<and> hd b = CHR ''{'' \<and> last b = CHR ''}'' \<longrightarrow> parse b = None)"
proof -
  have "isl (second_attempt parse t) \<longleftrightarrow> (\<forall>b. match_braces t = Some b \<longrightarrow> parse b = None)"
    by (auto simp: second_attempt_def split: option.splits)
  then show ?thesis
    unfolding match_braces_iff by blast
qed

lemma parse_response_accepted:
  "parse_response parse is_obj x = Inr v \<longleftrightarrow>
      (\<exists>t. x = Some t \<and> t \<noteq> []
           \<and> (parse t = Some v \<and> is_obj v
               \<or> (\<forall>u. parse t = Some u \<longrightarrow> \<not> is_obj u)
                 \<and> (\<exists>pre b post. t = pre @ b @ post \<and> CHR ''{'' \<notin> set pre
                       \<and> CHR ''}'' \<notin> set post \<and> b \<noteq> [] \<and> hd b = CHR ''{''
                       \<and> last b = CHR ''}'' \<and> parse b = Some v)))"
  unfolding parse_response_Inr first_attempt_Some first_attempt_None second_attempt_spans ..

lemma parse_response_refused:
  "isl (parse_response parse is_obj x) \<longleftrightarrow>
      (x = None \<or> x = Some []
       \<or> (\<exists>t. x = Some t \<and> (\<forall>u. parse t = Some u \<longrightarrow> \<not> is_obj u)
             \<and> (\<forall>pre b post. t = pre @ b @ post \<and> CHR ''{'' \<notin> set pre
                   \<and> CHR ''}'' \<notin> set post \<and> b \<noteq> [] \<and> hd b = CHR ''{''
                   \<and> last b = CHR ''}'' \<longrightarrow> parse b = None)))"
proof -
  have "\<not> truthy x \<longleftrightarrow> x = None \<or> x = Some []"
    by (cases x) auto
  then show ?thesis
    unfolding parse_response_Inl first_attempt_None second_attempt_fails by simp
qed

text \<open>
  Claim C8, as stated, fails twice. In a text with two blocks the first block is JSON,
  so the claim accepts it; the regular expression is greedy and takes the span from
  the first opening brace to the last closing brace, which is not JSON, and the code
  raises an error. The text \<open>12\<close> parses at the first attempt, so the claim accepts
  it; the code refuses a parsed value that is not an object, finds no braces, and
  raises an error.
\<close>

theorem two_blocks_rejected_counterexample:
  \<open>first_block two_blocks = Some ''{"a":1}''
   \<and> claimed_response JSON_parse_samples (Some two_blocks) = Some (Table [(''a'', 1)])
   \<and> match_braces two_blocks = Some ''{"a":1} and {"b":2}''
   \<and> parse_response JSON_parse_samples is_object_sample (Some two_blocks)
       = Inl ''Unable to parse Gemini API response as JSON.''
   \<and> claimed_response JSON_parse_samples (Some ''12'') = Some (Number 12)
   \<and> parse_response JSON_parse_samples is_object_sample (Some ''12'')
       = Inl ''Gemini API did not return JSON.''\<close>
  by code_simp

text \<open>
  Claim C8, amended. The text of the response is parsed in at most two attempts. The
  first parses the whole text and succeeds when the result is an object. When it
  fails, the second parses the span from the first opening brace of the text to its
  last closing brace, if there is such a span. The table is accepted exactly when the
  first attempt succeeds with it, or the first fails and the span exists and parses
  to it. An error is raised exactly when there is no text (absent or empty), or the
  first attempt fails and there is no such span or it does not parse. The span the
  regular expression matches is exactly that one.
\<close>

theorem response_accepted_by_whole_text_or_brace_span:
  "(parse_response parse is_obj x = Inr v \<longleftrightarrow>
      (\<exists>t. x = Some t \<and> t \<noteq> []
           \<and> (parse t = Some v \<and> is_obj v
               \<or> (\<forall>u. parse t = Some u \<longrightarrow> \<not> is_obj u)
                 \<and> (\<exists>pre b post. t = pre @ b @ post \<and> CHR ''{'' \<notin> set pre
                       \<and> CHR ''}'' \<notin> set post \<and> b \<noteq> [] \<and> hd b = CHR ''{''
                       \<and> last b = CHR ''}'' \<and> parse b = Some v))))
   \<and> (isl (parse_response parse is_obj x) \<longleftrightarrow>
        (x = None \<or> x = Some []
         \<or> (\<exists>t. x = Some t \<and> (\<forall>u. parse t = Some u \<longrightarrow> \<not> is_obj u)
               \<and> (\<forall>pre b post. t = pre @ b @ post \<and> CHR ''{'' \<notin> set pre
                     \<and> CHR ''}'' \<notin> set post \<and> b \<noteq> [] \<and> hd b = CHR ''{''
                     \<and> last b = CHR ''}'' \<longrightarrow> parse b = None))))
   \<and> (match_braces s = Some blk \<longleftrightarrow>
        (\<exists>pre post. s = pre @ blk @ post \<and> CHR ''{'' \<notin> set pre \<and> CHR ''}'' \<notin> set post
           \<and> blk \<noteq> [] \<and> hd blk = CHR ''{'' \<and> last blk = CHR ''}''))"
  by (rule conjI [OF parse_response_accepted conjI [OF parse_response_refused match_braces_iff]])

theorem response_accepted_by_whole_text_or_brace_span_witness:
  "sample_parse sample_text = None
   \<and> sample_text = ''Here is the summary: '' @ sample_block @ '' as requested.''
   \<and> sample_parse sample_block = Some [(''delhi'', [(''flu'', 12)])]
   \<and> parse_response sample_parse (\<lambda>v. True) (Some sample_text) = Inr [(''delhi'', [(''flu'', 12)])]
   \<and> match_braces sample_text = Some sample_block"
proof -
  have whole: "sample_parse sample_text = None"
    by (simp add: sample_parse_def sample_text_def sample_block_def)
  have span: "sample_text = ''Here is the summary: '' @ sample_block @ '' as requested.''"
    by (simp add: sample_text_def sample_block_def)
  have block: "sample_parse sample_block = Some [(''delhi'', [(''flu'', 12)])]"
    by (simp add: sample_parse_def)
  have edge: "CHR ''{'' \<notin> set ''Here is the summary: ''" "CHR ''}'' \<notin> set '' as requested.''"
    "sample_block \<noteq> []" "hd sample_block = CHR ''{''" "last sample_block = CHR ''}''"
    by (simp_all add: sample_block_def)
  have ne: "sample_text \<noteq> []"
    by (simp add: sample_text_def)
  note C = response_accepted_by_whole_text_or_brace_span
      [of sample_parse "\<lambda>v. True" "Some sample_text" "[(''delhi'', [(''flu'', 12)])]"
          sample_text sample_block]
  have first: "\<forall>u. sample_parse sample_text = Some u \<longrightarrow> \<not> (\<lambda>v. True) u"
    using whole by simp
  have second: "\<exists>pre b post. sample_text = pre @ b @ post \<and> CHR ''{'' \<notin> set pre
      \<and> CHR ''}'' \<notin> set post \<and> b \<noteq> [] \<and> hd b = CHR ''{'' \<and> last b = CHR ''}''
      \<and> sample_parse b = Some [(''delhi'', [(''flu'', 12)])]"
    by (rule exI [of _ "''Here is the summary: ''"], rule exI [of _ sample_block],
        rule exI [of _ "'' as requested.''"]) (intro conjI span edge block)
  have "\<exists>t. Some sample_text = Some t \<and> t \<noteq> []
      \<and> (sample_parse t = Some [(''delhi'', [(''flu'', 12)])] \<and> (\<lambda>v. True) [(''delhi'', [(''flu'', 12)])]
          \<or> (\<forall>u. sample_parse t = Some u \<longrightarrow> \<not> (\<lambda>v. True) u)
            \<and> (\<exists>pre b post. t = pre @ b @ post \<and> CHR ''{'' \<notin> set pre
                  \<and> CHR ''}'' \<notin> set post \<and> b \<noteq> [] \<and> hd b = CHR ''{'' \<and> last b = CHR ''}''
                  \<and> sample_parse b = Some [(''delhi'', [(''flu'', 12)])]))"
    by (rule exI [of _ sample_text]) (intro conjI disjI2 refl ne first second)
  then have "parse_response sample_parse (\<lambda>v. True) (Some sample_text) = Inr [(''delhi'', [(''flu'', 12)])]"
    by (rule C [THEN conjunct1, THEN iffD2])
  moreover have "\<exists>pre post. sample_text = pre @ sample_block @ post \<and> CHR ''{'' \<notin> set pre
      \<and> CHR ''}'' \<notin> set post \<and> sample_block \<noteq> [] \<and> hd sample_block = CHR ''{''
      \<and> last sample_block = CHR ''}''"
    by (rule exI [of _ "''Here is the summary: ''"], rule exI [of _ "'' as requested.''"])
       (intro conjI span edge)
  then have "match_braces sample_text = Some sample_block"
    by (rule C [THEN conjunct2, THEN conjunct2, THEN iffD2])
  ultimately show ?thesis
    using whole span block by simp
qed

lemma attempt_fails:
  "isl (attempt_fetch e) \<longleftrightarrow>
     (case response e of
        Body x \<Rightarrow> isl (parse_response (JSON_parse e) (is_object e) x)
      | _ \<Rightarrow> True)"
  by (simp add: attempt_fetch_def split: response.splits)

text \<open>
  One failed call. A call fails when \<open>fetch\<close> rejects, the status is not ok, the body
  cannot be read, or the text is missing or fails both parse attempts. On a failure
  with message \<open>m\<close>, if the \<open>retryCount\<close> the callback reads is below the ceiling 3,
  the cell is raised by one, a timeout of 2000 ms times that count plus one is set,
  and the error shown starts with \<open>Retrying...\<close>; at or beyond the ceiling no timeout is
  set and the error shown is the final one.
\<close>

lemma failed_fetch_by_the_count_read:
  "(isl (attempt_fetch e) \<longleftrightarrow>
      (case response e of
         Body x \<Rightarrow> isl (parse_response (JSON_parse e) (is_object e) x)
       | _ \<Rightarrow> True))
   \<and> maxRetries = 3
   \<and> (truthy (API_KEY e) \<and> truthy (API_URL e) \<and> attempt_fetch e = Inl m \<and> seen < maxRetries
      \<longrightarrow> fetchGlobalOutbreaks e seen s
            = s\<lparr>isLoading := False,
                error := Some (''Retrying... Failed to fetch global outbreaks: '' @ m),
                retryCount := retryCount s + 1,
                timeouts := timeouts s @ [(2000 * (seen + 1), seen)]\<rparr>)
   \<and> (truthy (API_KEY e) \<and> truthy (API_URL e) \<and> attempt_fetch e = Inl m \<and> maxRetries \<le> seen
      \<longrightarrow> fetchGlobalOutbreaks e seen s
            = s\<lparr>isLoading := False,
                error := Some (''Failed to fetch global outbreaks after 3 retries: '' @ m)\<rparr>)"
proof -
  have d: "decimal 3 = ''3''" by simp
  show ?thesis
    by (auto simp: attempt_fails fetchGlobalOutbreaks_def maxRetries_def Let_def d
             simp del: decimal.simps)
qed

text \<open>
  The retry that a timeout makes is made by the callback that set the timeout, and
  that callback still reads the \<open>retryCount\<close> it was created with. While the calls
  keep failing, the callback of the first render, which reads 0, sets a timeout of
  2000 ms for itself each time, whatever the cell has grown to.
\<close>

lemma first_callback_retries_again:
  assumes "truthy (API_KEY e)" "truthy (API_URL e)" "attempt_fetch e = Inl m"
    and "timeouts s = [(2000, 0)]"
  shows "fire_timeout e s
           = s\<lparr>isLoading := False,
               error := Some (''Retrying... Failed to fetch global outbreaks: '' @ m),
               retryCount := retryCount s + 1\<rparr>"
  using assms by (simp add: fire_timeout_def fetchGlobalOutbreaks_def maxRetries_def Let_def)

lemma first_callback_retries_forever:
  assumes "truthy (API_KEY e)" "truthy (API_URL e)" "attempt_fetch e = Inl m"
    and "timeouts s = [(2000, 0)]"
  shows "timeouts ((fire_timeout e ^^ n) s) = [(2000, 0)]
         \<and> retryCount ((fire_timeout e ^^ n) s) = retryCount s + n"
proof (induction n)
  case 0
  then show ?case using assms(4) by simp
next
  case (Suc n)
  then show ?case
    using first_callback_retries_again [OF assms(1-3), of "(fire_timeout e ^^ n) s"] by simp
qed

text \<open>
  Claim C7 fails when the calls keep failing. The call made on mount reads
  \<open>retryCount = 0\<close>, fails, and sets a timeout of 2000 ms. Each time that timeout
  comes due the same callback runs, fails, and sets 2000 ms again: after four such
  retries the cell stands at 5, beyond the ceiling 3, the delay has never grown, the
  error shown is still the retrying one and a further retry is pending.
\<close>

theorem retries_go_on_past_the_ceiling:
  "fetchGlobalOutbreaks failing_env 0 (box 0)
     = \<lparr>globalReports = [], isLoading = False,
        error = Some ''Retrying... Failed to fetch global outbreaks: HTTP error! status: 503'',
        retryCount = 1, timeouts = [(2000, 0)]\<rparr>
   \<and> (fire_timeout failing_env ^^ 4) (fetchGlobalOutbreaks failing_env 0 (box 0))
     = \<lparr>globalReports = [], isLoading = False,
        error = Some ''Retrying... Failed to fetch global outbreaks: HTTP error! status: 503'',
        retryCount = 5, timeouts = [(2000, 0)]\<rparr>"
proof -
  define st :: "nat \<Rightarrow> Aggregated outbreak_box" where
    "st n = \<lparr>globalReports = [], isLoading = False,
        error = Some ''Retrying... Failed to fetch global outbreaks: HTTP error! status: 503'',
        retryCount = n, timeouts = [(2000, 0)]\<rparr>" for n
  have k: "truthy (API_KEY failing_env)" "truthy (API_URL failing_env)"
    by (simp_all add: failing_env_def)
  have a: "attempt_fetch failing_env = Inl ''HTTP error! status: 503''"
    by code_simp
  have first: "fetchGlobalOutbreaks failing_env 0 (box 0) = st 1"
    using k a by (simp add: fetchGlobalOutbreaks_def maxRetries_def box_def st_def Let_def)
  have again: "fire_timeout failing_env (st n) = st (Suc n)" for n
    using first_callback_retries_again [OF k a, of "st n"] by (simp add: st_def)
  have "(fire_timeout failing_env ^^ n) (st m) = st (m + n)" for n m
    by (induction n) (simp_all add: again)
  then have "(fire_timeout failing_env ^^ 4) (st 1) = st 5"
    by simp
  then show ?thesis
    by (simp add: first) (simp add: st_def)
qed

theorem retries_go_on_past_the_ceiling_witness:
  "truthy (API_KEY failing_env) \<and> truthy (API_URL failing_env)
   \<and> maxRetries
       < retryCount ((fire_timeout failing_env ^^ 4) (fetchGlobalOutbreaks failing_env 0 (box 0)))
   \<and> timeouts ((fire_timeout failing_env ^^ 4) (fetchGlobalOutbreaks failing_env 0 (box 0)))
       = [(2000, 0)]"
proof -
  have "truthy (API_KEY failing_env)" "truthy (API_URL failing_env)"
    by (simp_all add: failing_env_def)
  then show ?thesis
    using retries_go_on_past_the_ceiling [THEN conjunct2] by (simp add: maxRetries_def)
qed

section \<open>The payment gate: what the handlers write\<close>

lemma fetchBuyLinks_status:
  "payment_status (db (fetchBuyLinks e w) t) = payment_status (db w t)"
  by (auto simp: fetchBuyLinks_def links_failed_def set_message_def split: option.splits if_splits)

lemma handleConfirmPayment_status:
  "payment_status (db (state_of (handleConfirmPayment e w)) t)
     \<in> {payment_status (db w t), Some \<lparr>claimed = True, verified = False\<rparr>}"
  by (simp add: handleConfirmPayment_def set_payment_def split: option.splits)

lemma handleVerifyYes_status:
  "payment_status (db (state_of (handleVerifyYes e w)) t)
     \<in> {payment_status (db w t), Some \<lparr>claimed = True, verified = True\<rparr>}"
  by (simp add: handleVerifyYes_def set_payment_def split: option.splits)

lemma handleVerifyNo_status:
  "payment_status (db (state_of (handleVerifyNo e w)) t)
     \<in> {payment_status (db w t), Some \<lparr>claimed = False, verified = False\<rparr>}"
  by (simp add: handleVerifyNo_def set_payment_def split: option.splits)

lemma handleSendPrescription_status:
  "payment_status (db (state_of (handleSendPrescription e w)) t)
     \<in> {payment_status (db w t), Some \<lparr>claimed = False, verified = False\<rparr>}"
  by (simp add: handleSendPrescription_def Let_def set_payment_def set_message_def
        fetchBuyLinks_status split: option.splits)

text \<open>
  Claim C4. Whatever the environment and the state before, each of the four payment
  operations (confirm payment, verify yes, verify no, send prescription) leaves in
  every thread either the payment status it found or a status it has written, and a
  status it has written satisfies the invariant: verified only if claimed.
\<close>

theorem payment_operations_keep_invariant:
  "payment_status (db (state_of (handler b e w)) t) = payment_status (db w t)
   \<or> (\<exists>p. payment_status (db (state_of (handler b e w)) t) = Some p \<and> gate_invariant p)"
proof (cases b)
  case Confirm_Payment
  then show ?thesis
    using handleConfirmPayment_status [of e w t] by (auto simp: gate_invariant_def)
next
  case Verify_Yes
  then show ?thesis
    using handleVerifyYes_status [of e w t] by (auto simp: gate_invariant_def)
next
  case Verify_No
  then show ?thesis
    using handleVerifyNo_status [of e w t] by (auto simp: gate_invariant_def)
next
  case Send_Prescription
  then show ?thesis
    using handleSendPrescription_status [of e w t] by (auto simp: gate_invariant_def)
qed

theorem payment_operations_keep_invariant_witness:
  "verified (the (payment_status (db (state_of (handler Verify_Yes doctor_env
      \<lparr>db = (\<lambda>t. empty_thread), comp = blank\<rparr>)) ''p1'')))
   \<and> claimed (the (payment_status (db (state_of (handler Verify_Yes doctor_env
      \<lparr>db = (\<lambda>t. empty_thread), comp = blank\<rparr>)) ''p1'')))"
  using payment_operations_keep_invariant
    [of Verify_Yes doctor_env "\<lparr>db = (\<lambda>t. empty_thread), comp = blank\<rparr>" "''p1''"]
  by (simp add: handleVerifyYes_def doctor_env_def set_payment_def empty_thread_def)

section \<open>The payment gate: the verify controls\<close>

lemma targetId_Doctor:
  "role e = Doctor \<Longrightarrow> targetId e = Some t \<Longrightarrow>
   (\<exists>uid. user e = Some uid) \<and> patientId e = Some t \<and> t \<noteq> []"
  by (auto simp: targetId_def Let_def split: option.splits if_splits)

lemma observe_flags:
  "targetId e = Some t \<Longrightarrow>
     paymentClaimed (observe e d c)
       = (case payment_status (d t) of None \<Rightarrow> False | Some p \<Rightarrow> claimed p)
   \<and> paymentVerified (observe e d c)
       = (case payment_status (d t) of None \<Rightarrow> False | Some p \<Rightarrow> verified p)
   \<and> showVerificationPopup (observe e d c)
       = (role e = Doctor
          \<and> (case payment_status (d t) of None \<Rightarrow> False | Some p \<Rightarrow> claimed p \<and> \<not> verified p))"
  by (auto simp: observe_def popup_effect_def on_payment_def on_messages_def Let_def
      split: option.splits)

lemma status_Claimed: "claimed p \<Longrightarrow> \<not> verified p \<Longrightarrow> p = Claimed"
  by (cases p) (simp add: Claimed_def)

lemma popup_role: "showVerificationPopup (observe e d c) \<Longrightarrow> role e = Doctor"
  by (auto simp: observe_def popup_effect_def split: option.splits if_splits)

lemma handleVerifyYes_target:
  "payment_status (db (state_of (handleVerifyYes e w)) t) \<noteq> payment_status (db w t)
   \<Longrightarrow> role e = Doctor \<Longrightarrow> targetId e = Some t"
  by (auto simp: handleVerifyYes_def set_payment_def targetId_def Let_def
      split: option.splits if_splits)

lemma handleVerifyYes_writes:
  assumes "role e = Doctor" "targetId e = Some t" "accepts e (Payment_write t Verified)"
  shows "payment_status (db (state_of (handleVerifyYes e w)) t) = Some Verified"
  using assms targetId_Doctor [of e t]
  by (auto simp: handleVerifyYes_def set_payment_def Verified_def)

lemma handleVerifyNo_writes:
  assumes "role e = Doctor" "targetId e = Some t" "accepts e (Payment_write t Unclaimed)"
  shows "payment_status (db (state_of (handleVerifyNo e w)) t) = Some Unclaimed"
  using assms targetId_Doctor [of e t]
  by (auto simp: handleVerifyNo_def set_payment_def Unclaimed_def)

lemma click_verify_Unclaimed:
  assumes t: "targetId e = Some t"
    and u: "payment_status (d t) = None \<or> payment_status (d t) = Some Unclaimed"
  shows "click Verify_Yes e \<lparr>db = d, comp = observe e d c\<rparr> = \<lparr>db = d, comp = observe e d c\<rparr>"
    and "click Verify_No e \<lparr>db = d, comp = observe e d c\<rparr> = \<lparr>db = d, comp = observe e d c\<rparr>"
  using observe_flags [OF t, of d c] u by (auto simp: click_def Unclaimed_def)

lemma step_Verified_from_Claimed:
  assumes after: "payment_status (step (e, b, c) d t) = Some Verified"
    and before: "payment_status (d t) \<noteq> Some Verified"
  shows "payment_status (d t) = Some Claimed"
proof -
  let ?w = "\<lparr>db = d, comp = observe e d c\<rparr>"
  have r: "rendered e (observe e d c) b"
    using after before by (auto simp: step_def click_def split: if_splits)
  then have dbc: "db (click b e ?w) = db (state_of (handler b e ?w))"
    by (simp add: click_def Let_def)
  show ?thesis
  proof (cases b)
    case Confirm_Payment
    then show ?thesis
      using after before dbc handleConfirmPayment_status [of e ?w t]
      by (auto simp: Verified_def step_def)
  next
    case Verify_Yes
    then have "payment_status (db (state_of (handleVerifyYes e ?w)) t) \<noteq> payment_status (db ?w t)"
      using after before dbc by (simp add: step_def)
    moreover have popup: "showVerificationPopup (observe e d c)"
      using r Verify_Yes by simp
    then have "role e = Doctor"
      by (rule popup_role)
    ultimately have "targetId e = Some t"
      by (rule handleVerifyYes_target)
    then obtain p where "payment_status (d t) = Some p" "claimed p" "\<not> verified p"
      using observe_flags [of e t d c] popup by (auto split: option.splits)
    then show ?thesis
      using status_Claimed by auto
  next
    case Verify_No
    then show ?thesis
      using after before dbc handleVerifyNo_status [of e ?w t]
      by (auto simp: Verified_def step_def)
  next
    case Send_Prescription
    then show ?thesis
      using after before dbc handleSendPrescription_status [of e ?w t]
      by (auto simp: Verified_def step_def)
  qed
qed

lemma run_Verified_through_Claimed:
  "payment_status (last (run xs d) t) = Some Verified \<Longrightarrow>
   payment_status (d t) \<noteq> Some Verified \<Longrightarrow>
   \<exists>d' \<in> set (run xs d). payment_status (d' t) = Some Claimed"
proof (induction xs arbitrary: d)
  case Nil
  then show ?case by simp
next
  case (Cons x xs)
  obtain e b c where x: "x = (e, b, c)" by (cases x) auto
  show ?case
  proof (cases "payment_status (step x d t) = Some Verified")
    case True
    then have "payment_status (d t) = Some Claimed"
      using step_Verified_from_Claimed Cons.prems(2) x by blast
    then show ?thesis by auto
  next
    case False
    have "last (run (x # xs) d) = last (run xs (step x d))"
      by (cases xs) auto
    then have "\<exists>d' \<in> set (run xs (step x d)). payment_status (d' t) = Some Claimed"
      using Cons.IH [of "step x d"] Cons.prems(1) False by simp
    then show ?thesis by auto
  qed
qed

lemma sample_run_statuses:
  "map (\<lambda>d. payment_status (d ''p1'')) (run sample_run (thread_with Unclaimed))
     = [Some Unclaimed, Some Claimed, Some Verified]"
  by (simp add: sample_run_def step_def click_def observe_def targetId_def patient_env_def
        doctor_env_def blank_def thread_with_def empty_thread_def on_messages_def
        on_payment_def popup_effect_def Object_values_def Object_entries_def
        handleConfirmPayment_def handleVerifyYes_def set_payment_def
        Unclaimed_def Claimed_def Verified_def Let_def)

text \<open>
  Claim C2, as stated, fails on the handler: \<open>handleVerifyYes\<close> does not read the stored
  status, and from Unclaimed it writes Verified.
\<close>

theorem verify_yes_from_Unclaimed_counterexample:
  "payment_status (thread_with Unclaimed ''p1'') = Some Unclaimed
   \<and> payment_status (db (state_of (handleVerifyYes doctor_env
        \<lparr>db = thread_with Unclaimed, comp = blank\<rparr>)) ''p1'') = Some Verified"
  by (simp add: handleVerifyYes_def doctor_env_def set_payment_def thread_with_def
        empty_thread_def Verified_def Unclaimed_def)

text \<open>
  Claim C2, amended. The verify handlers take no account of the stored status: for a
  signed-in doctor with a patient id, and a database that accepts the write, verify
  yes leaves Verified and verify no leaves Unclaimed, whatever was stored (so from
  Unclaimed verify no changes nothing and verify yes does). The gate is in the view:
  the popup that carries both controls is on screen only while the component shows a
  claimed and unverified payment, so in a component that has observed an Unclaimed (or
  absent) status a click on either control changes nothing. In every run of clicks,
  each made in a component that has observed the database, a thread that ends
  Verified and did not start so has been Claimed on the way.
\<close>

theorem verify_controls_gated_by_view:
  "(role e = Doctor \<and> targetId e = Some t \<and> accepts e (Payment_write t Verified)
      \<longrightarrow> payment_status (db (state_of (handleVerifyYes e w)) t) = Some Verified)
   \<and> (role e = Doctor \<and> targetId e = Some t \<and> accepts e (Payment_write t Unclaimed)
      \<longrightarrow> payment_status (db (state_of (handleVerifyNo e w)) t) = Some Unclaimed)
   \<and> (targetId e = Some t
       \<and> (payment_status (d t) = None \<or> payment_status (d t) = Some Unclaimed)
      \<longrightarrow> click Verify_Yes e \<lparr>db = d, comp = observe e d c\<rparr> = \<lparr>db = d, comp = observe e d c\<rparr>
        \<and> click Verify_No e \<lparr>db = d, comp = observe e d c\<rparr> = \<lparr>db = d, comp = observe e d c\<rparr>)
   \<and> (payment_status (last (run xs d) t) = Some Verified
       \<and> payment_status (d t) \<noteq> Some Verified
      \<longrightarrow> (\<exists>d' \<in> set (run xs d). payment_status (d' t) = Some Claimed))"
  using handleVerifyYes_writes [of e t w] handleVerifyNo_writes [of e t w]
    click_verify_Unclaimed [of e t d c] run_Verified_through_Claimed [of xs d t]
  by blast

theorem verify_controls_gated_by_view_witness:
  "payment_status (db (state_of (handleVerifyYes doctor_env
        \<lparr>db = thread_with Unclaimed, comp = blank\<rparr>)) ''p1'') = Some Verified
   \<and> payment_status (db (state_of (handleVerifyNo doctor_env
        \<lparr>db = thread_with Unclaimed, comp = blank\<rparr>)) ''p1'') = Some Unclaimed
   \<and> click Verify_Yes doctor_env
        \<lparr>db = thread_with Unclaimed, comp = observe doctor_env (thread_with Unclaimed) blank\<rparr>
       = \<lparr>db = thread_with Unclaimed, comp = observe doctor_env (thread_with Unclaimed) blank\<rparr>
   \<and> click Verify_No doctor_env
        \<lparr>db = thread_with Unclaimed, comp = observe doctor_env (thread_with Unclaimed) blank\<rparr>
       = \<lparr>db = thread_with Unclaimed, comp = observe doctor_env (thread_with Unclaimed) blank\<rparr>
   \<and> payment_status (last (run sample_run (thread_with Unclaimed)) ''p1'') = Some Verified
   \<and> (\<exists>d' \<in> set (run sample_run (thread_with Unclaimed)).
         payment_status (d' ''p1'') = Some Claimed)"
proof -
  have e: "role doctor_env = Doctor" "targetId doctor_env = Some ''p1''"
    "accepts doctor_env (Payment_write ''p1'' Verified)"
    "accepts doctor_env (Payment_write ''p1'' Unclaimed)"
    by (simp_all add: doctor_env_def targetId_def)
  have u: "payment_status (thread_with Unclaimed ''p1'') = Some Unclaimed"
    by (simp add: thread_with_def)
  have l: "payment_status (last (run sample_run (thread_with Unclaimed)) ''p1'') = Some Verified"
    using sample_run_statuses by (simp add: sample_run_def last_map [symmetric] del: last_map)
  have n: "payment_status (thread_with Unclaimed ''p1'') \<noteq> Some Verified"
    by (simp add: thread_with_def Unclaimed_def Verified_def)
  show ?thesis
    using verify_controls_gated_by_view
      [of doctor_env "''p1''" "\<lparr>db = thread_with Unclaimed, comp = blank\<rparr>"
          "thread_with Unclaimed" blank sample_run] e u l n
    by blast
qed

section \<open>The payment gate: what the patient sees\<close>

lemma observe_messages:
  "targetId e = Some t \<Longrightarrow>
   messages (observe e d c) = sort_key timestamp (Object_values (thread_messages (d t)))"
  by (simp add: observe_def popup_effect_def on_payment_def on_messages_def Let_def)

lemma observe_hasDoctorSentFirst:
  "targetId e = Some t \<Longrightarrow>
   hasDoctorSentFirst (observe e d c) = (hasDoctorSentFirst c \<or> thread_messages (d t) \<noteq> [])"
  by (auto simp: observe_def popup_effect_def on_payment_def on_messages_def Let_def)

lemma sent_thread_is_sent:
  "db (state_of (handleSendPrescription doctor_env \<lparr>db = (\<lambda>t. empty_thread), comp = filled_form\<rparr>)) ''p1''
     = sent_thread Unclaimed ''p1''"
  by (simp add: handleSendPrescription_def doctor_env_def filled_form_def blank_def
        set_message_def set_payment_def fetchBuyLinks_def links_failed_def empty_thread_def
        sent_thread_def sample_prescription_def prescription_of_def Unclaimed_def Let_def)

text \<open>
  Claim C3, as stated, fails: the test \<open>shouldBlur\<close> does not read \<open>paymentClaimed\<close>.
  After the doctor has sent a prescription the status is Unclaimed, and the patient's
  component shows the prescription blurred.
\<close>

theorem blurred_while_Unclaimed_counterexample:
  "blurred patient_env (observe patient_env (sent_thread Unclaimed) blank) sample_prescription
   \<and> sample_prescription \<in> set (messages (observe patient_env (sent_thread Unclaimed) blank))
   \<and> \<not> paymentClaimed (observe patient_env (sent_thread Unclaimed) blank)"
  by (simp add: blurred_def shouldBlur_def observe_def targetId_def patient_env_def blank_def
        sent_thread_def sample_prescription_def on_messages_def on_payment_def popup_effect_def
        Object_values_def Object_entries_def is_array_index_def Unclaimed_def Let_def)

text \<open>
  Claim C3, amended. In a component that has observed its thread, a message on screen
  is blurred exactly when the component is the patient's, the stored payment is not
  verified (Unclaimed, Claimed, or no status yet), and the message is a prescription
  or a buy link; who sent the messages plays no part. Once the payment is verified,
  and always in the doctor's component, nothing is blurred; chat messages never are.
\<close>

theorem blurred_until_verified:
  "targetId e = Some t \<longrightarrow>
   (\<forall>msg \<in> set (messages (observe e d c)).
      blurred e (observe e d c) msg
        = (role e = Patient
           \<and> \<not> (case payment_status (d t) of None \<Rightarrow> False | Some p \<Rightarrow> verified p)
           \<and> (message_type msg = prescription \<or> message_type msg = buyLink)))"
proof (intro impI ballI)
  fix msg
  assume t: "targetId e = Some t" and m: "msg \<in> set (messages (observe e d c))"
  from m have "thread_messages (d t) \<noteq> []"
    using observe_messages [OF t, of d c] by (auto simp: Object_values_def)
  then have "hasDoctorSentFirst (observe e d c)"
    using observe_hasDoctorSentFirst [OF t, of d c] by simp
  then show "blurred e (observe e d c) msg
        = (role e = Patient
           \<and> \<not> (case payment_status (d t) of None \<Rightarrow> False | Some p \<Rightarrow> verified p)
           \<and> (message_type msg = prescription \<or> message_type msg = buyLink))"
    using observe_flags [OF t, of d c] by (simp add: blurred_def shouldBlur_def)
qed

theorem blurred_until_verified_witness:
  "sample_prescription \<in> set (messages (observe patient_env (sent_thread Claimed) blank))
   \<and> blurred patient_env (observe patient_env (sent_thread Claimed) blank) sample_prescription
   \<and> sample_prescription \<in> set (messages (observe patient_env (sent_thread Verified) blank))
   \<and> \<not> blurred patient_env (observe patient_env (sent_thread Verified) blank) sample_prescription"
proof -
  have t: "targetId patient_env = Some ''p1''"
    by (simp add: targetId_def patient_env_def)
  have m: "sample_prescription \<in> set (messages (observe patient_env (sent_thread p) blank))" for p
    using observe_messages [OF t, of "sent_thread p" blank]
    by (simp add: sent_thread_def Object_values_def)
  have k: "message_type sample_prescription = prescription" "role patient_env = Patient"
    by (simp_all add: sample_prescription_def patient_env_def)
  show ?thesis
    using blurred_until_verified [of patient_env "''p1''" "sent_thread Claimed" blank]
      blurred_until_verified [of patient_env "''p1''" "sent_thread Verified" blank] t m k
    by (simp add: sent_thread_def Claimed_def Verified_def)
qed

section \<open>The payment gate: sending a prescription\<close>

text \<open>
  Claim C9, as stated, fails: an invocation with an empty form field returns at line
  206 and writes nothing, so a Verified status stays.
\<close>

theorem send_with_empty_date_counterexample:
  "payment_status (db (state_of (handleSendPrescription doctor_env
       \<lparr>db = thread_with Verified, comp = undated_form\<rparr>)) ''p1'') = Some Verified"
  by (simp add: handleSendPrescription_def undated_form_def filled_form_def blank_def
        thread_with_def Let_def)

text \<open>
  Claim C9, amended. Every invocation of \<open>handleSendPrescription\<close> with the four form
  fields filled, a signed-in user and a patient id, whose two writes the database
  accepts, leaves the status \<open>{claimed: false, verified: false}\<close> in the patient's
  thread, whatever the status was before, Verified included. An invocation with an
  empty field, no user or no patient id changes nothing.
\<close>

theorem send_prescription_resets_gate:
  "(form_complete (comp w) \<and> user e \<noteq> None \<and> patientId e = Some pid \<and> pid \<noteq> []
     \<and> accepts e (Message_write pid (generateId e) (prescription_of e (comp w)))
     \<and> accepts e (Payment_write pid Unclaimed)
    \<longrightarrow> payment_status (db (state_of (handleSendPrescription e w)) pid) = Some Unclaimed)
   \<and> (\<not> form_complete (comp w) \<or> user e = None \<or> \<not> truthy (patientId e)
    \<longrightarrow> handleSendPrescription e w = Completed w)"
  by (auto simp: handleSendPrescription_def form_complete_def prescription_of_def
        set_message_def set_payment_def fetchBuyLinks_status Unclaimed_def Let_def
      split: option.splits)

theorem send_prescription_resets_gate_witness:
  "payment_status (thread_with Verified ''p1'') = Some Verified
   \<and> payment_status (db (state_of (handleSendPrescription doctor_env
       \<lparr>db = thread_with Verified, comp = filled_form\<rparr>)) ''p1'') = Some Unclaimed
   \<and> handleSendPrescription doctor_env \<lparr>db = thread_with Verified, comp = blank\<rparr>
       = Completed \<lparr>db = thread_with Verified, comp = blank\<rparr>"
proof -
  have "form_complete filled_form" "\<not> form_complete blank"
    "user doctor_env \<noteq> None" "patientId doctor_env = Some ''p1''"
    "accepts doctor_env x" for x
    by (simp_all add: form_complete_def filled_form_def blank_def doctor_env_def)
  then show ?thesis
    using send_prescription_resets_gate [of "\<lparr>db = thread_with Verified, comp = filled_form\<rparr>" doctor_env "''p1''"]
      send_prescription_resets_gate [of "\<lparr>db = thread_with Verified, comp = blank\<rparr>" doctor_env "''p1''"]
    by (simp add: thread_with_def)
qed

end
